theory Spec2Isabelle
  imports Main "HOL-Library.Word"
begin

unbundle bit_operations_syntax

section \<open>Data model of the queue-mode firmware\<close>

text \<open>
  The firmware is a single Arduino sketch. Its globals become one record \<open>state\<close>; every
  function of the sketch becomes a function on that record. The three output channels
  (the primary serial link, the HID driver and the auxiliary log link) are recorded, in the
  order the calls are made, in the field \<open>trace\<close>. The millisecond clock \<open>millis()\<close> is
  an input: each function that reads it takes the reading as its first argument.
\<close>

type_synonym u8 = "8 word"
type_synonym u16 = "16 word"
type_synonym u32 = "32 word"

definition SYNC_BYTE :: u8 where "SYNC_BYTE = 0xAA"
definition MAX_PACKET_SIZE :: nat where "MAX_PACKET_SIZE = 32"
definition QUEUE_SIZE :: nat where "QUEUE_SIZE = 16"
definition BUTTON_DEBOUNCE_MS :: u32 where "BUTTON_DEBOUNCE_MS = 50"
definition STATS_INTERVAL :: u32 where "STATS_INTERVAL = 30000"

definition ACK_SUCCESS :: u8 where "ACK_SUCCESS = 0xF0"
definition ACK_CRC_ERROR :: u8 where "ACK_CRC_ERROR = 0xF1"
definition ACK_INVALID_CMD :: u8 where "ACK_INVALID_CMD = 0xF2"
definition ACK_PARAM_ERROR :: u8 where "ACK_PARAM_ERROR = 0xF3"
definition ACK_INTERRUPTED :: u8 where "ACK_INTERRUPTED = 0xF4"

definition CMD_MOUSE_MOVE :: u8 where "CMD_MOUSE_MOVE = 0x01"
definition CMD_MOUSE_PRESS :: u8 where "CMD_MOUSE_PRESS = 0x02"
definition CMD_MOUSE_RELEASE :: u8 where "CMD_MOUSE_RELEASE = 0x03"
definition CMD_MOUSE_CLICK :: u8 where "CMD_MOUSE_CLICK = 0x04"
definition CMD_MOUSE_PRESS_TIMED :: u8 where "CMD_MOUSE_PRESS_TIMED = 0x05"
definition CMD_KB_PRESS :: u8 where "CMD_KB_PRESS = 0x10"
definition CMD_KB_RELEASE :: u8 where "CMD_KB_RELEASE = 0x11"
definition CMD_KB_WRITE :: u8 where "CMD_KB_WRITE = 0x12"
definition CMD_KB_RELEASE_ALL :: u8 where "CMD_KB_RELEASE_ALL = 0x13"
definition CMD_KB_PRINT :: u8 where "CMD_KB_PRINT = 0x14"
definition CMD_KB_PRESS_TIMED :: u8 where "CMD_KB_PRESS_TIMED = 0x15"
definition CMD_PAUSE_LOG :: u8 where "CMD_PAUSE_LOG = 0x20"
definition CMD_RESUME_LOG :: u8 where "CMD_RESUME_LOG = 0x21"
definition CMD_CLEAR_QUEUE :: u8 where "CMD_CLEAR_QUEUE = 0x22"

text \<open>Button masks of the Arduino Mouse library, as the sketch uses them.\<close>

definition MOUSE_LEFT :: u8 where "MOUSE_LEFT = 1"
definition MOUSE_RIGHT :: u8 where "MOUSE_RIGHT = 2"
definition MOUSE_MIDDLE :: u8 where "MOUSE_MIDDLE = 4"

subsection \<open>Output channels\<close>

text \<open>
  A call of the HID driver. \<open>Mouse.move\<close> takes three signed bytes; the sketch casts the
  parameter bytes to \<open>int8_t\<close>, which is \<open>sint\<close> here.
\<close>

datatype hid_call =
    MouseMove int int int
  | MousePress u8
  | MouseRelease u8
  | MouseClick u8
  | KbPress u8
  | KbRelease u8
  | KbWrite u8
  | KbReleaseAll

text \<open>
  What the logger prints on the auxiliary link, one value per printed line. A line keeps
  the values the sketch prints (clock reading of the prefix, names, counters); a message
  built by \<open>snprintf\<close> is kept as its format string and arguments.
\<close>

datatype fmt_arg = I int | S string

datatype message = Lit string | Fmt string "fmt_arg list"

datatype log_line =
    QueueLine u32 u8
  | RecvLine u32 u32 u8
  | DataLine "u8 list"
  | ExecLine u32 string "message option"
  | InterruptLine "u32 option"
  | LogStateLine bool
  | TextLine "u8 list" bool
  | ErrorLine u32 string "message option" u32
  | AckLine u32 string u8
  | StatsBlock u32 u32 u32 u8 u32

datatype event = SerialWrite u8 | Hid hid_call | Serial1 log_line

subsection \<open>Globals\<close>

text \<open>
  \<open>CommandPacket.params\<close> is a 32-byte array of which only the first \<open>param_len\<close>
  bytes are ever written or read; the model keeps those bytes as a list.
\<close>

record CommandPacket =
  cmd :: u8
  params :: "u8 list"
  param_len :: u8
  timestamp :: u32

record CommandQueue =
  queue :: "CommandPacket list"
  head :: u8
  tail :: u8
  count :: u8

record Logger =
  packet_counter :: u32
  error_counter :: u32
  success_counter :: u32

record TimedAction =
  active :: bool
  action_type :: u8
  button_or_key :: u8
  start_time :: u32
  duration_ms :: u16

record state =
  g_interrupt_flag :: bool
  g_log_enabled :: bool
  last_button_press :: u32
  cmdQueue :: CommandQueue
  logger :: Logger
  rx_buffer :: "u8 list"
  rx_state :: u8
  rx_len :: u8
  rx_idx :: u8
  timedAction :: TimedAction
  last_stats_time :: u32
  trace :: "event list"

definition emit :: "event list \<Rightarrow> state \<Rightarrow> state" where
  "emit es s = s\<lparr>trace := trace s @ es\<rparr>"

section \<open>Command queue\<close>

text \<open>
  \<open>push\<close> and \<open>pop\<close> return the flag the C++ methods return together with the new
  queue; \<open>pop\<close> returns the packet it copies out. Index arithmetic is done in \<open>int\<close> by
  the C++ integer promotions and stored back into a \<open>uint8_t\<close>.
\<close>

definition push :: "CommandPacket \<Rightarrow> CommandQueue \<Rightarrow> bool \<times> CommandQueue" where
  "push packet q =
     (if unat (count q) \<ge> QUEUE_SIZE then (False, q)
      else (True, q\<lparr>queue := (queue q)[unat (tail q) := packet],
                      tail := of_nat ((unat (tail q) + 1) mod QUEUE_SIZE),
                      count := count q + 1\<rparr>))"

definition pop :: "CommandQueue \<Rightarrow> (CommandPacket \<times> CommandQueue) option" where
  "pop q =
     (if count q = 0 then None
      else Some (queue q ! unat (head q),
                 q\<lparr>head := of_nat ((unat (head q) + 1) mod QUEUE_SIZE),
                   count := count q - 1\<rparr>))"

definition clear :: "CommandQueue \<Rightarrow> CommandQueue" where
  "clear q = q\<lparr>head := 0, tail := 0, count := 0\<rparr>"

definition size_q :: "CommandQueue \<Rightarrow> u8" where
  "size_q q = count q"

definition isEmpty :: "CommandQueue \<Rightarrow> bool" where
  "isEmpty q = (count q = 0)"

definition isFull :: "CommandQueue \<Rightarrow> bool" where
  "isFull q = (unat (count q) \<ge> QUEUE_SIZE)"

section \<open>CRC-8\<close>

definition CRC8_TABLE :: "u8 list" where
  "CRC8_TABLE =
    [
     0x00, 0x5E, 0xBC, 0xE2, 0x61, 0x3F, 0xDD, 0x83,
     0xC2, 0x9C, 0x7E, 0x20, 0xA3, 0xFD, 0x1F, 0x41,
     0x9D, 0xC3, 0x21, 0x7F, 0xFC, 0xA2, 0x40, 0x1E,
     0x5F, 0x01, 0xE3, 0xBD, 0x3E, 0x60, 0x82, 0xDC,
     0x23, 0x7D, 0x9F, 0xC1, 0x42, 0x1C, 0xFE, 0xA0,
     0xE1, 0xBF, 0x5D, 0x03, 0x80, 0xDE, 0x3C, 0x62,
     0xBE, 0xE0, 0x02, 0x5C, 0xDF, 0x81, 0x63, 0x3D,
     0x7C, 0x22, 0xC0, 0x9E, 0x1D, 0x43, 0xA1, 0xFF,
     0x46, 0x18, 0xFA, 0xA4, 0x27, 0x79, 0x9B, 0xC5,
     0x84, 0xDA, 0x38, 0x66, 0xE5, 0xBB, 0x59, 0x07,
     0xDB, 0x85, 0x67, 0x39, 0xBA, 0xE4, 0x06, 0x58,
     0x19, 0x47, 0xA5, 0xFB, 0x78, 0x26, 0xC4, 0x9A,
     0x65, 0x3B, 0xD9, 0x87, 0x04, 0x5A, 0xB8, 0xE6,
     0xA7, 0xF9, 0x1B, 0x45, 0xC6, 0x98, 0x7A, 0x24,
     0xF8, 0xA6, 0x44, 0x1A, 0x99, 0xC7, 0x25, 0x7B,
     0x3A, 0x64, 0x86, 0xD8, 0x5B, 0x05, 0xE7, 0xB9,
     0x8C, 0xD2, 0x30, 0x6E, 0xED, 0xB3, 0x51, 0x0F,
     0x4E, 0x10, 0xF2, 0xAC, 0x2F, 0x71, 0x93, 0xCD,
     0x11, 0x4F, 0xAD, 0xF3, 0x70, 0x2E, 0xCC, 0x92,
     0xD3, 0x8D, 0x6F, 0x31, 0xB2, 0xEC, 0x0E, 0x50,
     0xAF, 0xF1, 0x13, 0x4D, 0xCE, 0x90, 0x72, 0x2C,
     0x6D, 0x33, 0xD1, 0x8F, 0x0C, 0x52, 0xB0, 0xEE,
     0x32, 0x6C, 0x8E, 0xD0, 0x53, 0x0D, 0xEF, 0xB1,
     0xF0, 0xAE, 0x4C, 0x12, 0x91, 0xCF, 0x2D, 0x73,
     0xCA, 0x94, 0x76, 0x28, 0xAB, 0xF5, 0x17, 0x49,
     0x08, 0x56, 0xB4, 0xEA, 0x69, 0x37, 0xD5, 0x8B,
     0x57, 0x09, 0xEB, 0xB5, 0x36, 0x68, 0x8A, 0xD4,
     0x95, 0xCB, 0x29, 0x77, 0xF4, 0xAA, 0x48, 0x16,
     0xE9, 0xB7, 0x55, 0x0B, 0x88, 0xD6, 0x34, 0x6A,
     0x2B, 0x75, 0x97, 0xC9, 0x4A, 0x14, 0xF6, 0xA8,
     0x74, 0x2A, 0xC8, 0x96, 0x15, 0x4B, 0xA9, 0xF7,
     0xB6, 0xE8, 0x0A, 0x54, 0xD7, 0x89, 0x6B, 0x35
    ]"

text \<open>The loop of \<open>crc8\<close> over the first \<open>len\<close> bytes of \<open>data\<close>.\<close>

fun crc8_loop :: "u8 \<Rightarrow> u8 list \<Rightarrow> u8" where
  "crc8_loop crc [] = crc"
| "crc8_loop crc (d # ds) = crc8_loop (CRC8_TABLE ! unat (crc XOR d)) ds"

definition crc8 :: "u8 list \<Rightarrow> u8 \<Rightarrow> u8" where
  "crc8 data len = crc8_loop 0x00 (take (unat len) data)"

section \<open>Logger\<close>

text \<open>
  Every method of \<open>Logger\<close> that is gated by \<open>g_log_enabled\<close> returns the state
  unchanged when logging is paused. \<open>CURRENT_LOG_LEVEL\<close> is \<open>LOG_LEVEL_DEBUG\<close>, so the
  level tests of the sketch are always passed and are left out.
\<close>

definition getKeyName :: "u8 \<Rightarrow> string" where
  "getKeyName key =
     (if key = 0x80 then ''LEFT_CTRL''
      else if key = 0x81 then ''LEFT_SHIFT''
      else if key = 0x82 then ''LEFT_ALT''
      else if key = 0x83 then ''LEFT_GUI''
      else if key = 0xDA then ''UP_ARROW''
      else if key = 0xD9 then ''DOWN_ARROW''
      else if key = 0xD8 then ''LEFT_ARROW''
      else if key = 0xD7 then ''RIGHT_ARROW''
      else if key = 0xB2 then ''BACKSPACE''
      else if key = 0xB3 then ''TAB''
      else if key = 0xB0 then ''RETURN''
      else if key = 0xB1 then ''ESC''
      else if key = 0xD4 then ''DELETE''
      else if 32 \<le> key \<and> key \<le> 126 then ''ASCII''
      else ''SPECIAL'')"

definition getButtonName :: "u8 \<Rightarrow> string" where
  "getButtonName button =
     (if button = 0x01 then ''LEFT''
      else if button = 0x02 then ''RIGHT''
      else if button = 0x04 then ''MIDDLE''
      else if button = 0x07 then ''ALL''
      else ''UNKNOWN'')"

definition logQueueStatus :: "u32 \<Rightarrow> state \<Rightarrow> state" where
  "logQueueStatus t s =
     (if \<not> g_log_enabled s then s
      else emit [Serial1 (QueueLine t (size_q (cmdQueue s)))] s)"

definition logPacketReceived :: "u8 \<Rightarrow> u32 \<Rightarrow> state \<Rightarrow> state" where
  "logPacketReceived len t s =
     (if \<not> g_log_enabled s then s
      else
        (let n = packet_counter (logger s) + 1 in
         emit [Serial1 (RecvLine t n len)] (s\<lparr>logger := (logger s)\<lparr>packet_counter := n\<rparr>\<rparr>)))"

definition logPacketData :: "u8 list \<Rightarrow> u8 \<Rightarrow> state \<Rightarrow> state" where
  "logPacketData data len s =
     (if \<not> g_log_enabled s then s
      else emit [Serial1 (DataLine (take (unat len) data))] s)"

definition logCommand :: "string \<Rightarrow> message option \<Rightarrow> u32 \<Rightarrow> state \<Rightarrow> state" where
  "logCommand cmd_name details t s =
     (if \<not> g_log_enabled s then s
      else emit [Serial1 (ExecLine t cmd_name details)] s)"

text \<open>
  \<open>logInterrupt\<close> has no gate of its own: the message line is always printed, only its
  prefix (\<open>printTimestamp\<close>, \<open>printLevel\<close>) is gated.
\<close>

definition logInterrupt :: "u32 \<Rightarrow> state \<Rightarrow> state" where
  "logInterrupt t s =
     emit [Serial1 (InterruptLine (if g_log_enabled s then Some t else None))] s"

definition logLogStateChange :: "bool \<Rightarrow> state \<Rightarrow> state" where
  "logLogStateChange enabled s = emit [Serial1 (LogStateLine enabled)] s"

definition logMouseMove :: "int \<Rightarrow> int \<Rightarrow> int \<Rightarrow> u32 \<Rightarrow> state \<Rightarrow> state" where
  "logMouseMove x y wheel t s =
     (if \<not> g_log_enabled s then s
      else logCommand ''MOUSE_MOVE'' (Some (Fmt ''x=%d, y=%d, wheel=%d'' [I x, I y, I wheel])) t s)"

definition logMouseButton :: "string \<Rightarrow> u8 \<Rightarrow> u32 \<Rightarrow> state \<Rightarrow> state" where
  "logMouseButton action button t s =
     (if \<not> g_log_enabled s then s
      else logCommand ''MOUSE'' (Some (Fmt ''%s (%s)'' [S action, S (getButtonName button)])) t s)"

definition logKeyboard :: "string \<Rightarrow> u8 \<Rightarrow> u32 \<Rightarrow> state \<Rightarrow> state" where
  "logKeyboard action key t s =
     (if \<not> g_log_enabled s then s
      else logCommand ''KEYBOARD''
             (Some (Fmt ''%s %s (0x%02X)'' [S action, S (getKeyName key), I (uint key)])) t s)"

definition logKeyboardPrint :: "u8 list \<Rightarrow> u8 \<Rightarrow> state \<Rightarrow> state" where
  "logKeyboardPrint txt len s =
     (if \<not> g_log_enabled s then s
      else emit [Serial1 (TextLine (take (min (unat len) 40) txt) (unat len > 40))] s)"

definition logError :: "string \<Rightarrow> message option \<Rightarrow> u32 \<Rightarrow> state \<Rightarrow> state" where
  "logError error_type details t s =
     (if \<not> g_log_enabled s then s
      else
        (let n = error_counter (logger s) + 1 in
         emit [Serial1 (ErrorLine t error_type details n)]
           (s\<lparr>logger := (logger s)\<lparr>error_counter := n\<rparr>\<rparr>)))"

definition logCRCError :: "u8 \<Rightarrow> u8 \<Rightarrow> u32 \<Rightarrow> state \<Rightarrow> state" where
  "logCRCError expected received t s =
     (if \<not> g_log_enabled s then s
      else logError ''CRC_MISMATCH''
             (Some (Fmt ''Expected: 0x%02X, Got: 0x%02X'' [I (uint expected), I (uint received)])) t s)"

definition logInvalidCommand :: "u8 \<Rightarrow> u32 \<Rightarrow> state \<Rightarrow> state" where
  "logInvalidCommand c t s =
     (if \<not> g_log_enabled s then s
      else logError ''INVALID_CMD'' (Some (Fmt ''Unknown CMD: 0x%02X'' [I (uint c)])) t s)"

definition logParamError :: "u8 \<Rightarrow> u8 \<Rightarrow> u8 \<Rightarrow> u32 \<Rightarrow> state \<Rightarrow> state" where
  "logParamError c expected received t s =
     (if \<not> g_log_enabled s then s
      else logError ''PARAM_ERROR''
             (Some (Fmt ''CMD 0x%02X needs %d bytes, got %d''
                      [I (uint c), I (uint expected), I (uint received)])) t s)"

definition ack_name :: "u8 \<Rightarrow> string" where
  "ack_name ack_code =
     (if ack_code = ACK_SUCCESS then ''SUCCESS''
      else if ack_code = ACK_CRC_ERROR then ''CRC_ERROR''
      else if ack_code = ACK_INVALID_CMD then ''INVALID_CMD''
      else if ack_code = ACK_PARAM_ERROR then ''PARAM_ERROR''
      else if ack_code = ACK_INTERRUPTED then ''INTERRUPTED''
      else ''UNKNOWN'')"

definition logACK :: "u8 \<Rightarrow> u32 \<Rightarrow> state \<Rightarrow> state" where
  "logACK ack_code t s =
     (if \<not> g_log_enabled s then s
      else
        (let s1 = (if ack_code = ACK_SUCCESS
                   then s\<lparr>logger := (logger s)\<lparr>success_counter := success_counter (logger s) + 1\<rparr>\<rparr>
                   else s)
         in emit [Serial1 (AckLine t (ack_name ack_code) ack_code)] s1))"

definition reset_counter :: "Logger \<Rightarrow> Logger" where
  "reset_counter l = l\<lparr>packet_counter := 0, error_counter := 0, success_counter := 0\<rparr>"

definition logStats :: "u32 \<Rightarrow> state \<Rightarrow> state" where
  "logStats t s =
     (if \<not> g_log_enabled s then s
      else
        (let l = logger s;
             s1 = emit [Serial1 (StatsBlock (packet_counter l) (success_counter l) (error_counter l)
                                   (size_q (cmdQueue s)) t)] s
         in s1\<lparr>logger := reset_counter l\<rparr>))"

section \<open>Interrupt service routine and acknowledgements\<close>

text \<open>\<open>buttonISR\<close> reads the clock itself; \<open>t\<close> is that reading. The subtraction wraps.\<close>

definition buttonISR :: "u32 \<Rightarrow> state \<Rightarrow> state" where
  "buttonISR t s =
     (if t - last_button_press s > BUTTON_DEBOUNCE_MS
      then s\<lparr>g_interrupt_flag := True, last_button_press := t\<rparr>
      else s)"

definition sendAck :: "u8 \<Rightarrow> u32 \<Rightarrow> state \<Rightarrow> state" where
  "sendAck ack_code t s = logACK ack_code t (emit [SerialWrite ack_code] s)"

section \<open>Executor\<close>

text \<open>
  The button interrupt can run between any two instructions of the main context. The
  flag it sets is read at the top of \<open>loop\<close>, at the entry of \<open>executeCommand\<close> and before
  each byte of \<open>CMD_KB_PRINT\<close>; an interrupt is therefore modelled as running just before
  one of these reads. \<open>irqs\<close> lists, for the successive flag reads of the print loop,
  whether the routine runs before the read and with which clock reading.
\<close>

definition preempt :: "u32 option list \<Rightarrow> state \<Rightarrow> state" where
  "preempt irqs s = (case irqs of Some t # _ \<Rightarrow> buttonISR t s | _ \<Rightarrow> s)"

fun kb_print_loop :: "u32 option list \<Rightarrow> u8 list \<Rightarrow> state \<Rightarrow> state" where
  "kb_print_loop irqs [] s = s"
| "kb_print_loop irqs (b # bs) s =
     (let s1 = preempt irqs s in
      if g_interrupt_flag s1 then s1
      else kb_print_loop (tl irqs) bs (emit [Hid (KbWrite b)] s1))"

text \<open>
  The value of the flag at the read before byte \<open>j\<close> (counting from 0) of the print loop:
  the flag after the interrupts that \<open>irqs\<close> places before the reads 0 to \<open>j\<close> have run,
  in order. The routine is the only writer of the flag while a command runs.
\<close>

fun flag_at_read :: "u32 option list \<Rightarrow> nat \<Rightarrow> state \<Rightarrow> bool" where
  "flag_at_read irqs 0 s = g_interrupt_flag (preempt irqs s)"
| "flag_at_read irqs (Suc j) s = flag_at_read (tl irqs) j (preempt irqs s)"

definition duration_of :: "u8 \<Rightarrow> u8 \<Rightarrow> u16" where
  "duration_of hi lo = push_bit 8 (ucast hi) OR ucast lo"

definition start_timed :: "u8 \<Rightarrow> u8 \<Rightarrow> u32 \<Rightarrow> u16 \<Rightarrow> state \<Rightarrow> state" where
  "start_timed ty target t dur s =
     s\<lparr>timedAction := \<lparr>active = True, action_type = ty, button_or_key = target,
                         start_time = t, duration_ms = dur\<rparr>\<rparr>"

definition executeCommand :: "u32 \<Rightarrow> u32 option list \<Rightarrow> CommandPacket \<Rightarrow> state \<Rightarrow> state" where
  "executeCommand t irqs packet s =
     (let c = cmd packet; ps = params packet; n = param_len packet in
      if g_interrupt_flag s then logCommand ''CMD_SKIPPED'' (Some (Lit ''Interrupted'')) t s
      else if c = CMD_MOUSE_MOVE then
        (if n \<noteq> 3 then logParamError c 3 n t s
         else
           (let x = sint (ps ! 0); y = sint (ps ! 1); wheel = sint (ps ! 2) in
            emit [Hid (MouseMove x y wheel)] (logMouseMove x y wheel t s)))
      else if c = CMD_MOUSE_PRESS then
        (if n \<noteq> 1 then s
         else emit [Hid (MousePress (ps ! 0))] (logMouseButton ''Press'' (ps ! 0) t s))
      else if c = CMD_MOUSE_RELEASE then
        (if n \<noteq> 1 then s
         else emit [Hid (MouseRelease (ps ! 0))] (logMouseButton ''Release'' (ps ! 0) t s))
      else if c = CMD_MOUSE_CLICK then
        (if n \<noteq> 1 then s
         else emit [Hid (MouseClick (ps ! 0))] (logMouseButton ''Click'' (ps ! 0) t s))
      else if c = CMD_MOUSE_PRESS_TIMED then
        (if n \<noteq> 3 then s
         else
           (let button = ps ! 0; dur = duration_of (ps ! 1) (ps ! 2) in
            logCommand ''MOUSE_TIMED_START'' None t
              (emit [Hid (MousePress button)] (start_timed 0 button t dur s))))
      else if c = CMD_KB_PRESS then
        (if n \<noteq> 1 then s
         else emit [Hid (KbPress (ps ! 0))] (logKeyboard ''Press'' (ps ! 0) t s))
      else if c = CMD_KB_RELEASE then
        (if n \<noteq> 1 then s
         else emit [Hid (KbRelease (ps ! 0))] (logKeyboard ''Release'' (ps ! 0) t s))
      else if c = CMD_KB_WRITE then
        (if n \<noteq> 1 then s
         else emit [Hid (KbWrite (ps ! 0))] (logKeyboard ''Write'' (ps ! 0) t s))
      else if c = CMD_KB_RELEASE_ALL then
        emit [Hid KbReleaseAll] (logCommand ''KB_RELEASE_ALL'' None t s)
      else if c = CMD_KB_PRINT then
        kb_print_loop irqs (take (unat n) ps)
          (logKeyboardPrint ps n (logCommand ''KB_PRINT'' None t s))
      else if c = CMD_KB_PRESS_TIMED then
        (if n \<noteq> 3 then s
         else
           (let key = ps ! 0; dur = duration_of (ps ! 1) (ps ! 2) in
            logCommand ''KB_TIMED_START'' None t
              (emit [Hid (KbPress key)] (start_timed 1 key t dur s))))
      else if c = CMD_PAUSE_LOG then
        logLogStateChange False (s\<lparr>g_log_enabled := False\<rparr>)
      else if c = CMD_RESUME_LOG then
        logLogStateChange True (s\<lparr>g_log_enabled := True\<rparr>)
      else if c = CMD_CLEAR_QUEUE then
        logCommand ''QUEUE_CLEARED'' None t (s\<lparr>cmdQueue := clear (cmdQueue s)\<rparr>)
      else logInvalidCommand c t s)"

section \<open>Dispatcher\<close>

text \<open>
  \<open>processPacket data len\<close>: \<open>data\<close> is the receive buffer, \<open>len\<close> the payload length.
  The packet built here holds the \<open>len - 1\<close> bytes that \<open>memcpy\<close> copies.
\<close>

definition make_packet :: "u32 \<Rightarrow> u8 list \<Rightarrow> u8 \<Rightarrow> CommandPacket" where
  "make_packet t data len =
     \<lparr>cmd = data ! 0, params = take (unat (len - 1)) (drop 1 data),
      param_len = len - 1, timestamp = t\<rparr>"

definition processPacket :: "u32 \<Rightarrow> u8 list \<Rightarrow> u8 \<Rightarrow> state \<Rightarrow> state" where
  "processPacket t data len s =
     (if len < 1 then sendAck ACK_PARAM_ERROR t (logError ''EMPTY_PACKET'' None t s)
      else
        (let s1 = logPacketData data len s;
             packet = make_packet t data len
         in
           if cmd packet = CMD_PAUSE_LOG \<or> cmd packet = CMD_RESUME_LOG
              \<or> cmd packet = CMD_CLEAR_QUEUE
           then sendAck ACK_SUCCESS t (executeCommand t [] packet s1)
           else
             (case push packet (cmdQueue s1) of
                (True, q) \<Rightarrow> sendAck ACK_SUCCESS t (logQueueStatus t (s1\<lparr>cmdQueue := q\<rparr>))
              | (False, q) \<Rightarrow> sendAck ACK_PARAM_ERROR t (logError ''QUEUE_FULL'' None t s1))))"

section \<open>Main loop\<close>

subsection \<open>Step 1: servicing the hardware interrupt\<close>

definition release_timed :: "state \<Rightarrow> state" where
  "release_timed s =
     (let ta = timedAction s in
      if action_type ta = 0 then emit [Hid (MouseRelease (button_or_key ta))] s
      else emit [Hid (KbRelease (button_or_key ta))] s)"

definition deactivate :: "state \<Rightarrow> state" where
  "deactivate s = s\<lparr>timedAction := (timedAction s)\<lparr>active := False\<rparr>\<rparr>"

definition loop_interrupt :: "u32 \<Rightarrow> state \<Rightarrow> state" where
  "loop_interrupt t s =
     (if g_interrupt_flag s then
        (let s1 = logInterrupt t s;
             s2 = s1\<lparr>cmdQueue := clear (cmdQueue s1)\<rparr>;
             s3 = emit [Hid KbReleaseAll] s2;
             s4 = emit [Hid (MouseRelease (MOUSE_LEFT OR MOUSE_RIGHT OR MOUSE_MIDDLE))] s3;
             s5 = (if active (timedAction s4) then deactivate (release_timed s4) else s4);
             s6 = sendAck ACK_INTERRUPTED t s5
         in s6\<lparr>g_interrupt_flag := False\<rparr>)
      else s)"

subsection \<open>Step 2: polling the timed action\<close>

definition loop_timed :: "u32 \<Rightarrow> state \<Rightarrow> state" where
  "loop_timed t s =
     (let ta = timedAction s in
      if active ta then
        (if t - start_time ta \<ge> ucast (duration_ms ta) then
           (if action_type ta = 0
            then deactivate (logCommand ''MOUSE_TIMED_END'' None t (release_timed s))
            else deactivate (logCommand ''KB_TIMED_END'' None t (release_timed s)))
         else s)
      else s)"

subsection \<open>Step 3: the frame parser\<close>

text \<open>
  One pass of the body of the receive loop, for the byte \<open>byte_in\<close>. The only array
  write is \<open>rx_buffer[rx_idx++]\<close>; a write at an index outside the 32-byte buffer is
  undefined behaviour in C++ and is the result \<open>None\<close> here. The comparison
  \<open>rx_idx == rx_len + 1\<close> is made in \<open>int\<close>.
\<close>

definition rx_byte :: "u32 \<Rightarrow> u8 \<Rightarrow> state \<Rightarrow> state option" where
  "rx_byte t byte_in s =
     (if rx_state s = 0 then
        (if byte_in = SYNC_BYTE then Some (s\<lparr>rx_state := 1, rx_idx := 0\<rparr>) else Some s)
      else if rx_state s = 1 then
        (let s1 = s\<lparr>rx_len := byte_in\<rparr> in
         if rx_len s1 = 0 \<or> unat (rx_len s1) > MAX_PACKET_SIZE - 1
         then Some ((sendAck ACK_PARAM_ERROR t (logError ''INVALID_LENGTH'' None t s1))
                      \<lparr>rx_state := 0\<rparr>)
         else Some ((logPacketReceived (rx_len s1) t s1)\<lparr>rx_state := 2, rx_idx := 0\<rparr>))
      else if rx_state s = 2 then
        (if unat (rx_idx s) \<ge> length (rx_buffer s) then None
         else
           (let s1 = s\<lparr>rx_buffer := (rx_buffer s)[unat (rx_idx s) := byte_in],
                       rx_idx := rx_idx s + 1\<rparr>
            in
              if unat (rx_idx s1) = unat (rx_len s1) + 1 then
                (let received_crc = rx_buffer s1 ! unat (rx_len s1);
                     calculated_crc = crc8 (rx_buffer s1) (rx_len s1);
                     s2 = (if received_crc = calculated_crc
                           then processPacket t (rx_buffer s1) (rx_len s1) s1
                           else sendAck ACK_CRC_ERROR t
                                  (logCRCError calculated_crc received_crc t s1))
                 in Some (s2\<lparr>rx_state := 0, rx_idx := 0\<rparr>))
              else Some s1))
      else Some s)"

text \<open>
  What happens while the receive loop runs: a byte is read from the primary link, or the
  button interrupt runs between two reads.
\<close>

datatype rx_event = RxByte u8 | RxEdge u32

fun loop_receive :: "u32 \<Rightarrow> rx_event list \<Rightarrow> state \<Rightarrow> state option" where
  "loop_receive t [] s = Some s"
| "loop_receive t (RxEdge te # evs) s = loop_receive t evs (buttonISR te s)"
| "loop_receive t (RxByte b # evs) s =
     (case rx_byte t b s of None \<Rightarrow> None | Some s1 \<Rightarrow> loop_receive t evs s1)"

subsection \<open>Step 4: running one queued command\<close>

definition loop_execute :: "u32 \<Rightarrow> u32 option list \<Rightarrow> state \<Rightarrow> state" where
  "loop_execute t irqs s =
     (if \<not> active (timedAction s) \<and> \<not> isEmpty (cmdQueue s) then
        (case pop (cmdQueue s) of
           Some (packet, q) \<Rightarrow> executeCommand t irqs packet (s\<lparr>cmdQueue := q\<rparr>)
         | None \<Rightarrow> s)
      else s)"

subsection \<open>Step 5: statistics\<close>

definition loop_stats :: "u32 \<Rightarrow> state \<Rightarrow> state" where
  "loop_stats t s =
     (if t - last_stats_time s > STATS_INTERVAL
      then (logStats t s)\<lparr>last_stats_time := t\<rparr>
      else s)"

subsection \<open>One iteration\<close>

text \<open>
  The inputs of one iteration of \<open>loop\<close>: the clock reading, an interrupt that ran since
  the previous iteration read the flag, the bytes waiting on the primary link (with the
  interrupts between them; one after the last byte runs before step 4), and the
  interrupts during a \<open>CMD_KB_PRINT\<close> of step 4.
\<close>

record loop_env =
  now_ms :: u32
  irq_top :: "u32 option"
  serial_in :: "rx_event list"
  irq_print :: "u32 option list"

definition loop :: "loop_env \<Rightarrow> state \<Rightarrow> state option" where
  "loop env s =
     (let t = now_ms env;
          s0 = preempt [irq_top env] s;
          s1 = loop_interrupt t s0;
          s2 = loop_timed t s1
      in case loop_receive t (serial_in env) s2 of
           None \<Rightarrow> None
         | Some s3 \<Rightarrow> Some (loop_stats t (loop_execute t (irq_print env) s3)))"

fun run :: "loop_env list \<Rightarrow> state \<Rightarrow> state option" where
  "run [] s = Some s"
| "run (env # envs) s = (case loop env s of None \<Rightarrow> None | Some s1 \<Rightarrow> run envs s1)"

text \<open>
  The globals as their initialisers leave them. \<open>trace\<close> starts empty at the first call of
  \<open>loop\<close>: what \<open>setup\<close> prints is not recorded.
\<close>

definition empty_packet :: CommandPacket where
  "empty_packet = \<lparr>cmd = 0, params = [], param_len = 0, timestamp = 0\<rparr>"

definition init_state :: state where
  "init_state =
     \<lparr>g_interrupt_flag = False, g_log_enabled = True, last_button_press = 0,
      cmdQueue = \<lparr>queue = replicate QUEUE_SIZE empty_packet, head = 0, tail = 0, count = 0\<rparr>,
      logger = \<lparr>packet_counter = 0, error_counter = 0, success_counter = 0\<rparr>,
      rx_buffer = replicate MAX_PACKET_SIZE 0, rx_state = 0, rx_len = 0, rx_idx = 0,
      timedAction = \<lparr>active = False, action_type = 0, button_or_key = 0,
                     start_time = 0, duration_ms = 0\<rparr>,
      last_stats_time = 0, trace = []\<rparr>"

section \<open>What is held on the HID side\<close>

text \<open>
  Modelled from the spec: the HID driver (the Arduino Keyboard and Mouse libraries) is an
  external collaborator of the sketch and not part of the repository. The spec speaks of
  buttons and keys that are held; this is the least state that gives that a meaning: the
  mask of mouse buttons that are down and the set of key codes that are down. A press
  holds its target, a release lets it go, \<open>release_all\<close> lets every key go, and a click
  or a write ends with its target released (the library's click reports no button down).
\<close>

record hid_state =
  keys_down :: "u8 set"
  buttons_down :: u8

fun hid_apply :: "hid_state \<Rightarrow> hid_call \<Rightarrow> hid_state" where
  "hid_apply h (MouseMove x y w) = h"
| "hid_apply h (MousePress b) = h\<lparr>buttons_down := buttons_down h OR b\<rparr>"
| "hid_apply h (MouseRelease b) = h\<lparr>buttons_down := buttons_down h AND NOT b\<rparr>"
| "hid_apply h (MouseClick b) = h\<lparr>buttons_down := 0\<rparr>"
| "hid_apply h (KbPress k) = h\<lparr>keys_down := insert k (keys_down h)\<rparr>"
| "hid_apply h (KbRelease k) = h\<lparr>keys_down := keys_down h - {k}\<rparr>"
| "hid_apply h (KbWrite k) = h\<lparr>keys_down := keys_down h - {k}\<rparr>"
| "hid_apply h KbReleaseAll = h\<lparr>keys_down := {}\<rparr>"

fun hid_calls :: "event list \<Rightarrow> hid_call list" where
  "hid_calls [] = []"
| "hid_calls (Hid c # es) = c # hid_calls es"
| "hid_calls (e # es) = hid_calls es"

definition hid_run :: "hid_state \<Rightarrow> event list \<Rightarrow> hid_state" where
  "hid_run h es = foldl hid_apply h (hid_calls es)"

section \<open>Concrete situations\<close>

text \<open>
  A frame carrying \<open>MOUSE_CLICK(LEFT)\<close>, and the state the receive loop of the first
  iteration reaches when that frame arrives and the button is pressed right after its last
  byte, before step 4 of the iteration.
\<close>

definition click_frame :: "u8 list" where
  "click_frame = [SYNC_BYTE, 0x02, CMD_MOUSE_CLICK, MOUSE_LEFT, 0x65]"

definition before_step4 :: state where
  "before_step4 = the (loop_receive 100 (map RxByte click_frame @ [RxEdge 100]) init_state)"

text \<open>A receive buffer holding the one-byte payload \<open>CLEAR_QUEUE\<close>.\<close>

definition clear_payload :: "u8 list" where
  "clear_payload = CMD_CLEAR_QUEUE # replicate 31 0"

text \<open>
  Scenario S4 of the spec: \<open>KB_PRESS_TIMED('a', 5000 ms)\<close> has been started and the button
  is pressed 100 ms later.
\<close>

definition timed_packet :: CommandPacket where
  "timed_packet = \<lparr>cmd = CMD_KB_PRESS_TIMED, params = [0x41, 0x13, 0x88], param_len = 3,
                    timestamp = 0\<rparr>"

definition timed_irq_state :: state where
  "timed_irq_state = buttonISR 100 (executeCommand 0 [] timed_packet init_state)"

text \<open>The parser after all bytes of the click frame but its CRC byte.\<close>

definition awaiting_crc :: state where
  "awaiting_crc = the (loop_receive 100 (map RxByte (butlast click_frame)) init_state)"

text \<open>
  A frame carrying \<open>CLEAR_QUEUE\<close>, and the state after the receive loop has read the click
  frame, the button has been pressed, and the \<open>CLEAR_QUEUE\<close> frame has been read.
\<close>

definition clear_frame :: "u8 list" where
  "clear_frame = [SYNC_BYTE, 0x01, CMD_CLEAR_QUEUE, 0x9F]"

definition after_clear_frame :: state where
  "after_clear_frame =
     the (loop_receive 100 (map RxByte click_frame @ [RxEdge 100] @ map RxByte clear_frame)
            init_state)"

text \<open>Two commands with one parameter byte too few or too many.\<close>

definition press_two_params :: CommandPacket where
  "press_two_params = \<lparr>cmd = CMD_MOUSE_PRESS, params = [MOUSE_LEFT, MOUSE_RIGHT], param_len = 2,
                         timestamp = 0\<rparr>"

definition move_two_params :: CommandPacket where
  "move_two_params = \<lparr>cmd = CMD_MOUSE_MOVE, params = [5, 5], param_len = 2, timestamp = 0\<rparr>"

section \<open>The protocol view of the output\<close>

text \<open>
  The output without the lines of the log link: the bytes written to the primary link and
  the HID calls, in order.
\<close>

fun is_log :: "event \<Rightarrow> bool" where
  "is_log (Serial1 l) = True"
| "is_log e = False"

definition protocol :: "event list \<Rightarrow> event list" where
  "protocol es = filter (\<lambda>e. \<not> is_log e) es"

text \<open>A \<open>KB_PRINT\<close> of five bytes.\<close>

definition print_packet :: CommandPacket where
  "print_packet = \<lparr>cmd = CMD_KB_PRINT, params = [0x68, 0x65, 0x6C, 0x6C, 0x6F], param_len = 5,
                     timestamp = 0\<rparr>"

text \<open>The bytes written to the primary link, in order.\<close>

fun acks :: "event list \<Rightarrow> u8 list" where
  "acks [] = []"
| "acks (SerialWrite a # es) = a # acks es"
| "acks (e # es) = acks es"

section \<open>Two runs that differ in the logging state\<close>

text \<open>
  \<open>obs\<close> is the state without what belongs to logging: without \<open>g_log_enabled\<close>, without
  the logger's counters and with the protocol view of the output. Two states are
  \<open>loweq\<close> when they agree on it. \<open>strip\<close> is the representative of a state's class
  with logging paused, zero counters and no log line in the output.
\<close>

type_synonym parser = "u8 list \<times> u8 \<times> u8 \<times> u8"

definition parser_fields :: "state \<Rightarrow> parser" where
  "parser_fields s = (rx_buffer s, rx_state s, rx_len s, rx_idx s)"

definition obs ::
  "state \<Rightarrow> bool \<times> u32 \<times> CommandQueue \<times> parser \<times> TimedAction \<times> u32 \<times> event list" where
  "obs s = (g_interrupt_flag s, last_button_press s, cmdQueue s, parser_fields s,
            timedAction s, last_stats_time s, protocol (trace s))"

definition loweq :: "state \<Rightarrow> state \<Rightarrow> bool" where
  "loweq s s' \<longleftrightarrow> obs s = obs s'"

definition strip :: "state \<Rightarrow> state" where
  "strip s = s\<lparr>g_log_enabled := False,
               logger := \<lparr>packet_counter = 0, error_counter = 0, success_counter = 0\<rparr>,
               trace := protocol (trace s)\<rparr>"

text \<open>The first iteration after reset, with the click frame waiting on the primary link.\<close>

definition click_env :: loop_env where
  "click_env = \<lparr>now_ms = 100, irq_top = None, serial_in = map RxByte click_frame, irq_print = []\<rparr>"

text \<open>
  Seventeen click frames, all waiting when one receive loop starts, and the same
  seventeen frames with the last one arriving an iteration later.
\<close>

definition burst_env :: loop_env where
  "burst_env = \<lparr>now_ms = 100, irq_top = None,
                 serial_in = map RxByte (concat (replicate 17 click_frame)), irq_print = []\<rparr>"

definition split_envs :: "loop_env list" where
  "split_envs =
     [\<lparr>now_ms = 100, irq_top = None,
       serial_in = map RxByte (concat (replicate 16 click_frame)), irq_print = []\<rparr>,
      \<lparr>now_ms = 100, irq_top = None, serial_in = map RxByte click_frame, irq_print = []\<rparr>]"

section \<open>Reachable states\<close>

text \<open>
  The steps of the main context and of the interrupt routine, one at a time. An iteration
  of \<open>loop\<close> is the list \<open>steps_of\<close> of these steps, so every state the firmware is in
  between two steps, within an iteration or between two iterations, is the result of
  \<open>do_steps\<close> on some list of steps from \<open>init_state\<close>.
\<close>

datatype step =
    Edge u32
  | Service u32
  | Poll u32
  | Rx u32 u8
  | Exec u32 "u32 option list"
  | Stats u32

fun do_step :: "step \<Rightarrow> state \<Rightarrow> state option" where
  "do_step (Edge te) s = Some (buttonISR te s)"
| "do_step (Service t) s = Some (loop_interrupt t s)"
| "do_step (Poll t) s = Some (loop_timed t s)"
| "do_step (Rx t b) s = rx_byte t b s"
| "do_step (Exec t irqs) s = Some (loop_execute t irqs s)"
| "do_step (Stats t) s = Some (loop_stats t s)"

fun do_steps :: "step list \<Rightarrow> state \<Rightarrow> state option" where
  "do_steps [] s = Some s"
| "do_steps (x # xs) s = (case do_step x s of None \<Rightarrow> None | Some s1 \<Rightarrow> do_steps xs s1)"

fun rx_step :: "u32 \<Rightarrow> rx_event \<Rightarrow> step" where
  "rx_step t (RxByte b) = Rx t b"
| "rx_step t (RxEdge te) = Edge te"

definition steps_of :: "loop_env \<Rightarrow> step list" where
  "steps_of env =
     (case irq_top env of Some te \<Rightarrow> [Edge te] | None \<Rightarrow> [])
     @ [Service (now_ms env), Poll (now_ms env)]
     @ map (rx_step (now_ms env)) (serial_in env)
     @ [Exec (now_ms env) (irq_print env), Stats (now_ms env)]"

text \<open>
  The parser's invariant: the buffer has its 32 bytes and, while a payload is being read
  (state 2), the length is between 1 and 31 and the write index has not passed it.
\<close>

definition parser_ok :: "state \<Rightarrow> bool" where
  "parser_ok s \<longleftrightarrow>
     length (rx_buffer s) = MAX_PACKET_SIZE
     \<and> (rx_state s = 2 \<longrightarrow>
          1 \<le> unat (rx_len s) \<and> unat (rx_len s) \<le> MAX_PACKET_SIZE - 1
          \<and> unat (rx_idx s) \<le> unat (rx_len s))"

text \<open>The line the \<open>len < 1\<close> branch of \<open>processPacket\<close> hands to the logger, and an
  output without it.\<close>

fun empty_packet_line :: "event \<Rightarrow> bool" where
  "empty_packet_line (Serial1 (ErrorLine t ty d n)) = (ty = ''EMPTY_PACKET'')"
| "empty_packet_line e = False"

definition quiet :: "event list \<Rightarrow> bool" where
  "quiet es = list_all (\<lambda>e. \<not> empty_packet_line e) es"

definition parser_view :: "state \<Rightarrow> parser \<times> bool" where
  "parser_view s = (parser_fields s, quiet (trace s))"

section \<open>Basic facts\<close>

lemmas const_defs =
  SYNC_BYTE_def MAX_PACKET_SIZE_def QUEUE_SIZE_def BUTTON_DEBOUNCE_MS_def STATS_INTERVAL_def
  ACK_SUCCESS_def ACK_CRC_ERROR_def ACK_INVALID_CMD_def ACK_PARAM_ERROR_def ACK_INTERRUPTED_def
  CMD_MOUSE_MOVE_def CMD_MOUSE_PRESS_def CMD_MOUSE_RELEASE_def CMD_MOUSE_CLICK_def
  CMD_MOUSE_PRESS_TIMED_def CMD_KB_PRESS_def CMD_KB_RELEASE_def CMD_KB_WRITE_def
  CMD_KB_RELEASE_ALL_def CMD_KB_PRINT_def CMD_KB_PRESS_TIMED_def CMD_PAUSE_LOG_def
  CMD_RESUME_LOG_def CMD_CLEAR_QUEUE_def MOUSE_LEFT_def MOUSE_RIGHT_def MOUSE_MIDDLE_def

lemma emit_fields [simp]:
  "trace (emit es s) = trace s @ es"
  "g_interrupt_flag (emit es s) = g_interrupt_flag s"
  "g_log_enabled (emit es s) = g_log_enabled s"
  "last_button_press (emit es s) = last_button_press s"
  "cmdQueue (emit es s) = cmdQueue s"
  "logger (emit es s) = logger s"
  "rx_buffer (emit es s) = rx_buffer s"
  "rx_state (emit es s) = rx_state s"
  "rx_len (emit es s) = rx_len s"
  "rx_idx (emit es s) = rx_idx s"
  "timedAction (emit es s) = timedAction s"
  "last_stats_time (emit es s) = last_stats_time s"
  by (simp_all add: emit_def)

lemmas logger_defs = logQueueStatus_def logPacketReceived_def logPacketData_def logCommand_def
  logInterrupt_def logLogStateChange_def logMouseMove_def logMouseButton_def logKeyboard_def
  logKeyboardPrint_def logError_def logCRCError_def logInvalidCommand_def logParamError_def
  logACK_def logStats_def sendAck_def

lemmas ack_defs = ACK_SUCCESS_def ACK_CRC_ERROR_def ACK_INVALID_CMD_def ACK_PARAM_ERROR_def
  ACK_INTERRUPTED_def

lemmas cmd_defs = CMD_MOUSE_MOVE_def CMD_MOUSE_PRESS_def CMD_MOUSE_RELEASE_def CMD_MOUSE_CLICK_def
  CMD_MOUSE_PRESS_TIMED_def CMD_KB_PRESS_def CMD_KB_RELEASE_def CMD_KB_WRITE_def
  CMD_KB_RELEASE_ALL_def CMD_KB_PRINT_def CMD_KB_PRESS_TIMED_def CMD_PAUSE_LOG_def
  CMD_RESUME_LOG_def CMD_CLEAR_QUEUE_def

lemma drop_length_append: "drop (length xs) (xs @ ys) = ys"
  by simp

lemma and_not_mask_clear: "((x :: u8) AND NOT m) AND m = 0"
  by (simp add: bit_eq_iff bit_and_iff bit_not_iff)

lemma and_not_two_clear: "(((x :: u8) AND NOT m) AND NOT k) AND m = 0"
  by (auto simp add: bit_eq_iff bit_and_iff bit_not_iff)

section \<open>Servicing the hardware interrupt\<close>

lemma service_trace:
  assumes "g_interrupt_flag s"
  shows "trace (loop_interrupt t s) =
           trace s
           @ [Serial1 (InterruptLine (if g_log_enabled s then Some t else None)),
              Hid KbReleaseAll,
              Hid (MouseRelease (MOUSE_LEFT OR MOUSE_RIGHT OR MOUSE_MIDDLE))]
           @ (if active (timedAction s)
              then [if action_type (timedAction s) = 0
                    then Hid (MouseRelease (button_or_key (timedAction s)))
                    else Hid (KbRelease (button_or_key (timedAction s)))]
              else [])
           @ [SerialWrite ACK_INTERRUPTED]
           @ (if g_log_enabled s then [Serial1 (AckLine t ''INTERRUPTED'' ACK_INTERRUPTED)] else [])"
  using assms
  by (simp add: loop_interrupt_def logger_defs Let_def ack_name_def release_timed_def deactivate_def
        ack_defs)

lemma service_state:
  assumes "g_interrupt_flag s"
  shows "cmdQueue (loop_interrupt t s) = clear (cmdQueue s)"
    and "\<not> active (timedAction (loop_interrupt t s))"
    and "\<not> g_interrupt_flag (loop_interrupt t s)"
  using assms
  by (simp_all add: loop_interrupt_def logger_defs Let_def release_timed_def deactivate_def)

lemma service_held:
  "let h' = hid_run h ([Serial1 l, Hid KbReleaseAll, Hid (MouseRelease m)]
                       @ (if a then [if ty = (0::u8) then Hid (MouseRelease k) else Hid (KbRelease k)]
                          else [])
                       @ [SerialWrite c] @ (if e then [Serial1 l2] else []))
   in keys_down h' = {} \<and> buttons_down h' AND m = 0
      \<and> (a \<and> ty = 0 \<longrightarrow> buttons_down h' AND k = 0)"
  by (simp add: hid_run_def Let_def and_not_mask_clear and_not_two_clear)

text \<open>
  C1. When \<open>loop\<close> finds the interrupt flag set, step 1 emits, in this order: the interrupt
  line on the log link (always, whatever the logging state), \<open>Keyboard.releaseAll\<close>,
  \<open>Mouse.release\<close> of the three buttons, the release of the timed action's target if the
  slot is active, and the single byte \<open>ACK_INTERRUPTED = 0xF4\<close> on the primary link.
  Afterwards the queue is empty, the slot is inactive and the flag is clear; whatever was
  held on the HID side before, no key is down, none of the three mouse buttons is down, and
  the button a mouse timed action held is up.
\<close>

theorem interrupt_service:
  assumes "g_interrupt_flag s"
  shows "trace (loop_interrupt t s) =
           trace s
           @ [Serial1 (InterruptLine (if g_log_enabled s then Some t else None)),
              Hid KbReleaseAll,
              Hid (MouseRelease (MOUSE_LEFT OR MOUSE_RIGHT OR MOUSE_MIDDLE))]
           @ (if active (timedAction s)
              then [if action_type (timedAction s) = 0
                    then Hid (MouseRelease (button_or_key (timedAction s)))
                    else Hid (KbRelease (button_or_key (timedAction s)))]
              else [])
           @ [SerialWrite ACK_INTERRUPTED]
           @ (if g_log_enabled s then [Serial1 (AckLine t ''INTERRUPTED'' ACK_INTERRUPTED)] else [])
       \<and> ACK_INTERRUPTED = 0xF4
       \<and> isEmpty (cmdQueue (loop_interrupt t s))
       \<and> \<not> active (timedAction (loop_interrupt t s))
       \<and> \<not> g_interrupt_flag (loop_interrupt t s)
       \<and> (\<forall>h. let h' = hid_run h (drop (length (trace s)) (trace (loop_interrupt t s))) in
              keys_down h' = {}
            \<and> buttons_down h' AND (MOUSE_LEFT OR MOUSE_RIGHT OR MOUSE_MIDDLE) = 0
            \<and> (active (timedAction s) \<and> action_type (timedAction s) = 0
                 \<longrightarrow> buttons_down h' AND button_or_key (timedAction s) = 0))"
proof -
  note tr = service_trace [OF assms, of t]
  have held: "\<forall>h. let h' = hid_run h (drop (length (trace s)) (trace (loop_interrupt t s))) in
              keys_down h' = {}
            \<and> buttons_down h' AND (MOUSE_LEFT OR MOUSE_RIGHT OR MOUSE_MIDDLE) = 0
            \<and> (active (timedAction s) \<and> action_type (timedAction s) = 0
                 \<longrightarrow> buttons_down h' AND button_or_key (timedAction s) = 0)"
    unfolding tr drop_length_append
    by (intro allI service_held)
  show ?thesis
    using tr service_state [OF assms, of t] held
    by (simp add: isEmpty_def clear_def ACK_INTERRUPTED_def)
qed

theorem interrupt_service_witness:
  "g_interrupt_flag timed_irq_state
   \<and> trace (loop_interrupt 100 timed_irq_state) =
       [Hid (KbPress 0x41),
        Serial1 (ExecLine 0 ''KB_TIMED_START'' None),
        Serial1 (InterruptLine (Some 100)),
        Hid KbReleaseAll,
        Hid (MouseRelease 7),
        Hid (KbRelease 0x41),
        SerialWrite 0xF4,
        Serial1 (AckLine 100 ''INTERRUPTED'' 0xF4)]
   \<and> isEmpty (cmdQueue (loop_interrupt 100 timed_irq_state))
   \<and> \<not> active (timedAction (loop_interrupt 100 timed_irq_state))
   \<and> \<not> g_interrupt_flag (loop_interrupt 100 timed_irq_state)"
proof -
  have h: "g_interrupt_flag timed_irq_state"
    by code_simp
  have before:
    "g_log_enabled timed_irq_state"
    "active (timedAction timed_irq_state)"
    "action_type (timedAction timed_irq_state) = 1"
    "button_or_key (timedAction timed_irq_state) = 0x41"
    "trace timed_irq_state = [Hid (KbPress 0x41), Serial1 (ExecLine 0 ''KB_TIMED_START'' None)]"
    by code_simp+
  show ?thesis
    using h interrupt_service [OF h, of 100] before
    by (simp add: ack_defs MOUSE_LEFT_def MOUSE_RIGHT_def MOUSE_MIDDLE_def)
qed

section \<open>Frame parser\<close>

text \<open>
  C5. In state 1 (S_LEN) the byte read is the length \<open>L\<close>. If \<open>L = 0\<close> or \<open>L > 31\<close> the
  parser hands \<open>INVALID_LENGTH\<close> to the logger (printed when logging is enabled), sends
  \<open>ACK_PARAM_ERROR\<close> and goes back to state 0; otherwise it keeps \<open>rx_len = L\<close> and enters
  state 2 with index 0, sending nothing. The sync byte \<open>0xAA\<close> read in this state is the
  length 170 and is rejected.
\<close>

theorem rx_len_byte:
  assumes "rx_state s = 1"
  shows "(\<exists>s'. rx_byte t L s = Some s' \<and> rx_len s' = L
            \<and> cmdQueue s' = cmdQueue s \<and> timedAction s' = timedAction s \<and>
          (if L = 0 \<or> L > 31
           then rx_state s' = 0 \<and>
                trace s' = trace s
                  @ (if g_log_enabled s
                     then [Serial1 (ErrorLine t ''INVALID_LENGTH'' None (error_counter (logger s) + 1))]
                     else [])
                  @ [SerialWrite ACK_PARAM_ERROR]
                  @ (if g_log_enabled s
                     then [Serial1 (AckLine t ''PARAM_ERROR'' ACK_PARAM_ERROR)] else [])
           else rx_state s' = 2 \<and> rx_idx s' = 0 \<and>
                trace s' = trace s
                  @ (if g_log_enabled s
                     then [Serial1 (RecvLine t (packet_counter (logger s) + 1) L)] else [])))
       \<and> (\<exists>s'. rx_byte t SYNC_BYTE s = Some s' \<and> rx_state s' = 0 \<and> unat (rx_len s') = 170
              \<and> SerialWrite ACK_PARAM_ERROR \<in> set (drop (length (trace s)) (trace s')))
       \<and> ACK_PARAM_ERROR = 0xF3"
  using assms
  by (simp add: rx_byte_def logger_defs const_defs Let_def ack_name_def word_less_nat_alt)

theorem rx_len_byte_witness:
  "rx_state (init_state\<lparr>rx_state := 1\<rparr>) = 1
   \<and> (\<exists>s'. rx_byte 5 0xAA (init_state\<lparr>rx_state := 1\<rparr>) = Some s' \<and> rx_state s' = 0
         \<and> trace s' = [Serial1 (ErrorLine 5 ''INVALID_LENGTH'' None 1), SerialWrite 0xF3,
                        Serial1 (AckLine 5 ''PARAM_ERROR'' 0xF3)])"
proof -
  have h: "rx_state (init_state\<lparr>rx_state := 1\<rparr>) = 1"
    by simp
  have before:
    "g_log_enabled (init_state\<lparr>rx_state := 1\<rparr>)"
    "trace (init_state\<lparr>rx_state := 1\<rparr>) = []"
    "error_counter (logger (init_state\<lparr>rx_state := 1\<rparr>)) = 0"
    by (simp_all add: init_state_def)
  have big: "(0xAA :: u8) = 0 \<or> (0xAA :: u8) > 31"
    by simp
  from rx_len_byte [OF h, of 5 "0xAA"]
  obtain s' where "rx_byte 5 0xAA (init_state\<lparr>rx_state := 1\<rparr>) = Some s'"
    and "if (0xAA :: u8) = 0 \<or> (0xAA :: u8) > 31
         then rx_state s' = 0 \<and>
              trace s' = trace (init_state\<lparr>rx_state := 1\<rparr>)
                @ (if g_log_enabled (init_state\<lparr>rx_state := 1\<rparr>)
                   then [Serial1 (ErrorLine 5 ''INVALID_LENGTH'' None
                           (error_counter (logger (init_state\<lparr>rx_state := 1\<rparr>)) + 1))]
                   else [])
                @ [SerialWrite ACK_PARAM_ERROR]
                @ (if g_log_enabled (init_state\<lparr>rx_state := 1\<rparr>)
                   then [Serial1 (AckLine 5 ''PARAM_ERROR'' ACK_PARAM_ERROR)] else [])
         else rx_state s' = 2 \<and> rx_idx s' = 0 \<and>
              trace s' = trace (init_state\<lparr>rx_state := 1\<rparr>)
                @ (if g_log_enabled (init_state\<lparr>rx_state := 1\<rparr>)
                   then [Serial1 (RecvLine 5
                           (packet_counter (logger (init_state\<lparr>rx_state := 1\<rparr>)) + 1) 0xAA)]
                   else [])"
    by blast
  then have "rx_byte 5 0xAA (init_state\<lparr>rx_state := 1\<rparr>) = Some s' \<and> rx_state s' = 0
         \<and> trace s' = [Serial1 (ErrorLine 5 ''INVALID_LENGTH'' None 1), SerialWrite 0xF3,
                        Serial1 (AckLine 5 ''PARAM_ERROR'' 0xF3)]"
    using before big by (simp add: ACK_PARAM_ERROR_def)
  then show ?thesis
    using h by blast
qed

text \<open>
  C6. In state 2 (S_PAYLOAD) the byte read is stored at \<open>rx_idx\<close>. Before \<open>rx_len + 1\<close>
  bytes are there the parser only stores. With the byte that makes it \<open>rx_len + 1\<close>, the
  table-driven CRC of the first \<open>rx_len\<close> buffer bytes is compared with that last byte:
  if they are equal the buffer goes to \<open>processPacket\<close>, otherwise \<open>CRC_MISMATCH\<close> with
  the computed and the received value goes to the logger, \<open>ACK_CRC_ERROR = 0xF1\<close> is sent
  and nothing else changes; in both cases the parser is back in state 0.
\<close>

theorem payload_state:
  assumes "rx_state s = 2"
      and "length (rx_buffer s) = MAX_PACKET_SIZE"
      and "unat (rx_idx s) < MAX_PACKET_SIZE"
  shows "(let buf = (rx_buffer s)[unat (rx_idx s) := b];
              s1 = s\<lparr>rx_buffer := buf, rx_idx := rx_idx s + 1\<rparr>
          in
          if unat (rx_idx s) + 1 \<noteq> unat (rx_len s) + 1 then rx_byte t b s = Some s1
          else if crc8 buf (rx_len s) = b
          then rx_byte t b s =
                 Some ((processPacket t buf (rx_len s) s1)\<lparr>rx_state := 0, rx_idx := 0\<rparr>)
          else (\<exists>s'. rx_byte t b s = Some s' \<and> rx_state s' = 0
                 \<and> cmdQueue s' = cmdQueue s \<and> timedAction s' = timedAction s
                 \<and> g_log_enabled s' = g_log_enabled s
                 \<and> trace s' = trace s
                    @ (if g_log_enabled s
                       then [Serial1 (ErrorLine t ''CRC_MISMATCH''
                               (Some (Fmt ''Expected: 0x%02X, Got: 0x%02X''
                                        [I (uint (crc8 buf (rx_len s))), I (uint b)]))
                               (error_counter (logger s) + 1))]
                       else [])
                    @ [SerialWrite ACK_CRC_ERROR]
                    @ (if g_log_enabled s
                       then [Serial1 (AckLine t ''CRC_ERROR'' ACK_CRC_ERROR)] else [])))
       \<and> ACK_CRC_ERROR = 0xF1"
proof -
  have idx: "unat (rx_idx s + 1) = unat (rx_idx s) + 1"
    using assms(3) by (simp add: MAX_PACKET_SIZE_def unat_word_ariths)
  show ?thesis
    using assms idx
    by (auto simp add: rx_byte_def Let_def logger_defs ack_defs ack_name_def MAX_PACKET_SIZE_def)
qed

theorem payload_state_witness:
  "rx_state awaiting_crc = 2
   \<and> length (rx_buffer awaiting_crc) = MAX_PACKET_SIZE
   \<and> unat (rx_idx awaiting_crc) < MAX_PACKET_SIZE
   \<and> (\<exists>s'. rx_byte 100 0x66 awaiting_crc = Some s' \<and> rx_state s' = 0
          \<and> cmdQueue s' = cmdQueue awaiting_crc
          \<and> trace s' = trace awaiting_crc
              @ [Serial1 (ErrorLine 100 ''CRC_MISMATCH''
                   (Some (Fmt ''Expected: 0x%02X, Got: 0x%02X'' [I 0x65, I 0x66])) 1),
                 SerialWrite 0xF1,
                 Serial1 (AckLine 100 ''CRC_ERROR'' 0xF1)])"
proof -
  have h1: "rx_state awaiting_crc = 2"
    and h2: "length (rx_buffer awaiting_crc) = MAX_PACKET_SIZE"
    and h3: "unat (rx_idx awaiting_crc) < MAX_PACKET_SIZE"
    by code_simp+
  have before:
    "unat (rx_idx awaiting_crc) + 1 = unat (rx_len awaiting_crc) + 1"
    "crc8 ((rx_buffer awaiting_crc)[unat (rx_idx awaiting_crc) := 0x66]) (rx_len awaiting_crc) = 0x65"
    "g_log_enabled awaiting_crc"
    "error_counter (logger awaiting_crc) = 0"
    by code_simp+
  have "\<exists>s'. rx_byte 100 0x66 awaiting_crc = Some s' \<and> rx_state s' = 0
          \<and> cmdQueue s' = cmdQueue awaiting_crc
          \<and> trace s' = trace awaiting_crc
              @ [Serial1 (ErrorLine 100 ''CRC_MISMATCH''
                   (Some (Fmt ''Expected: 0x%02X, Got: 0x%02X'' [I 0x65, I 0x66])) 1),
                 SerialWrite 0xF1,
                 Serial1 (AckLine 100 ''CRC_ERROR'' 0xF1)]"
    using payload_state [OF h1 h2 h3, of "0x66" 100] before
    by (auto simp add: Let_def ACK_CRC_ERROR_def)
  then show ?thesis
    using h1 h2 h3 by blast
qed

section \<open>Dispatcher\<close>

text \<open>
  C4. \<open>processPacket\<close> on a payload of at least one byte whose opcode is none of
  \<open>0x20\<close>, \<open>0x21\<close>, \<open>0x22\<close> (known or unknown alike): if the queue holds 16 entries it is
  left as it is, \<open>QUEUE_FULL\<close> goes to the logger and \<open>ACK_PARAM_ERROR = 0xF3\<close> is sent;
  otherwise the command is stored at \<open>tail\<close> with \<open>timestamp\<close> the clock reading, \<open>tail\<close>
  and \<open>count\<close> advance, and \<open>ACK_SUCCESS = 0xF0\<close> is sent.
\<close>

theorem admission:
  assumes "1 \<le> len"
      and "data ! 0 \<noteq> CMD_PAUSE_LOG" and "data ! 0 \<noteq> CMD_RESUME_LOG"
      and "data ! 0 \<noteq> CMD_CLEAR_QUEUE"
  shows "(let s' = processPacket t data len s; q = cmdQueue s;
              dataline = (if g_log_enabled s then [Serial1 (DataLine (take (unat len) data))] else [])
          in
          if unat (count q) \<ge> 16
          then cmdQueue s' = q
             \<and> trace s' = trace s @ dataline
                 @ (if g_log_enabled s
                    then [Serial1 (ErrorLine t ''QUEUE_FULL'' None (error_counter (logger s) + 1))]
                    else [])
                 @ [SerialWrite ACK_PARAM_ERROR]
                 @ (if g_log_enabled s
                    then [Serial1 (AckLine t ''PARAM_ERROR'' ACK_PARAM_ERROR)] else [])
          else cmdQueue s' =
                 q\<lparr>queue := (queue q)[unat (tail q) :=
                         \<lparr>cmd = data ! 0, params = take (unat (len - 1)) (drop 1 data),
                          param_len = len - 1, timestamp = t\<rparr>],
                   tail := of_nat ((unat (tail q) + 1) mod 16),
                   count := count q + 1\<rparr>
             \<and> trace s' = trace s @ dataline
                 @ (if g_log_enabled s then [Serial1 (QueueLine t (count q + 1))] else [])
                 @ [SerialWrite ACK_SUCCESS]
                 @ (if g_log_enabled s then [Serial1 (AckLine t ''SUCCESS'' ACK_SUCCESS)] else []))
       \<and> ACK_PARAM_ERROR = 0xF3 \<and> ACK_SUCCESS = 0xF0"
  using assms
  by (simp add: processPacket_def make_packet_def push_def logger_defs ack_defs Let_def ack_name_def
        size_q_def QUEUE_SIZE_def word_le_nat_alt word_less_nat_alt)

theorem admission_witness:
  "(1 :: u8) \<le> 2
   \<and> [0x99, 0x01] ! 0 \<noteq> CMD_PAUSE_LOG \<and> [0x99, 0x01] ! 0 \<noteq> CMD_RESUME_LOG
   \<and> [0x99, 0x01] ! 0 \<noteq> CMD_CLEAR_QUEUE
   \<and> count (cmdQueue (processPacket 7 [0x99, 0x01] 2 init_state)) = 1
   \<and> queue (cmdQueue (processPacket 7 [0x99, 0x01] 2 init_state)) ! 0 =
        \<lparr>cmd = 0x99, params = [0x01], param_len = 1, timestamp = 7\<rparr>
   \<and> trace (processPacket 7 [0x99, 0x01] 2 init_state) =
        [Serial1 (DataLine [0x99, 0x01]), Serial1 (QueueLine 7 1), SerialWrite 0xF0,
         Serial1 (AckLine 7 ''SUCCESS'' 0xF0)]"
proof -
  have h1: "(1 :: u8) \<le> 2"
    by simp
  have h2: "[0x99, 0x01] ! 0 \<noteq> CMD_PAUSE_LOG"
    and h3: "[0x99, 0x01] ! 0 \<noteq> CMD_RESUME_LOG"
    and h4: "[0x99, 0x01] ! 0 \<noteq> CMD_CLEAR_QUEUE"
    by (simp_all add: cmd_defs)
  have before:
    "g_log_enabled init_state" "trace init_state = []"
    "count (cmdQueue init_state) = 0" "tail (cmdQueue init_state) = 0"
    "queue (cmdQueue init_state) = replicate 16 empty_packet"
    by (simp_all add: init_state_def QUEUE_SIZE_def)
  have r16: "replicate 16 empty_packet = empty_packet # replicate 15 empty_packet"
    by (simp add: numeral_eq_Suc)
  show ?thesis
    using h1 h2 h3 h4 admission [OF h1 h2 h3 h4, of 7 init_state] before
    by (simp add: Let_def ack_defs r16)
qed

section \<open>Executor\<close>

lemma buttonISR_fields [simp]:
  "trace (buttonISR te s) = trace s"
  "g_log_enabled (buttonISR te s) = g_log_enabled s"
  "cmdQueue (buttonISR te s) = cmdQueue s"
  "logger (buttonISR te s) = logger s"
  "rx_buffer (buttonISR te s) = rx_buffer s"
  "rx_state (buttonISR te s) = rx_state s"
  "rx_len (buttonISR te s) = rx_len s"
  "rx_idx (buttonISR te s) = rx_idx s"
  "timedAction (buttonISR te s) = timedAction s"
  "last_stats_time (buttonISR te s) = last_stats_time s"
  by (simp_all add: buttonISR_def)

lemma preempt_fields [simp]:
  "trace (preempt irqs s) = trace s"
  "g_log_enabled (preempt irqs s) = g_log_enabled s"
  "cmdQueue (preempt irqs s) = cmdQueue s"
  "logger (preempt irqs s) = logger s"
  "rx_buffer (preempt irqs s) = rx_buffer s"
  "rx_state (preempt irqs s) = rx_state s"
  "rx_len (preempt irqs s) = rx_len s"
  "rx_idx (preempt irqs s) = rx_idx s"
  "timedAction (preempt irqs s) = timedAction s"
  "last_stats_time (preempt irqs s) = last_stats_time s"
  by (simp_all add: preempt_def split: list.splits option.splits)

lemma preempt_quiet: "\<forall>i\<in>set irqs. i = None \<Longrightarrow> preempt irqs s = s"
  by (cases irqs) (auto simp add: preempt_def)

lemma quiet_tl: "\<forall>i\<in>set irqs. i = None \<Longrightarrow> \<forall>i\<in>set (tl irqs). i = None"
  by (cases irqs) auto

lemma buttonISR_flag_stays: "g_interrupt_flag s \<Longrightarrow> g_interrupt_flag (buttonISR te s)"
  by (simp add: buttonISR_def)

lemma preempt_flag_stays: "g_interrupt_flag s \<Longrightarrow> g_interrupt_flag (preempt irqs s)"
  by (simp add: preempt_def buttonISR_flag_stays split: list.splits option.splits)

lemma preempt_button:
  "g_interrupt_flag a = g_interrupt_flag b \<Longrightarrow> last_button_press a = last_button_press b \<Longrightarrow>
   g_interrupt_flag (preempt irqs a) = g_interrupt_flag (preempt irqs b)
   \<and> last_button_press (preempt irqs a) = last_button_press (preempt irqs b)"
  by (simp add: preempt_def buttonISR_def split: list.splits option.splits)

lemma flag_at_read_button:
  "g_interrupt_flag a = g_interrupt_flag b \<Longrightarrow> last_button_press a = last_button_press b \<Longrightarrow>
   flag_at_read irqs j a = flag_at_read irqs j b"
proof (induction j arbitrary: irqs a b)
  case 0
  from preempt_button [OF 0] show ?case by simp
next
  case (Suc j)
  from preempt_button [OF Suc.prems, of irqs]
  have "flag_at_read (tl irqs) j (preempt irqs a) = flag_at_read (tl irqs) j (preempt irqs b)"
    by (intro Suc.IH) blast+
  then show ?case by simp
qed

lemma flag_at_read_stays: "g_interrupt_flag s \<Longrightarrow> flag_at_read irqs j s"
  by (induction j arbitrary: irqs s) (simp_all add: preempt_flag_stays)

lemma flag_at_read_mono: "flag_at_read irqs i s \<Longrightarrow> i \<le> j \<Longrightarrow> flag_at_read irqs j s"
proof (induction i arbitrary: irqs s j)
  case 0
  then show ?case by (cases j) (simp_all add: flag_at_read_stays)
next
  case (Suc i)
  then obtain j' where "j = Suc j'" "i \<le> j'" by (cases j) auto
  then show ?case using Suc by simp
qed

lemma flag_at_read_quiet:
  "\<not> g_interrupt_flag s \<Longrightarrow> \<forall>i\<in>set irqs. i = None \<Longrightarrow> \<not> flag_at_read irqs j s"
proof (induction j arbitrary: irqs)
  case 0
  then show ?case by (simp add: preempt_quiet)
next
  case (Suc j)
  have "\<forall>i\<in>set (tl irqs). i = None"
    using Suc.prems(2) by (rule quiet_tl)
  then show ?case
    using Suc by (simp add: preempt_quiet)
qed

lemma kb_print_loop_reads:
  "\<exists>k. k \<le> length bs
     \<and> trace (kb_print_loop irqs bs s) = trace s @ map (\<lambda>b. Hid (KbWrite b)) (take k bs)
     \<and> (\<forall>j<k. \<not> flag_at_read irqs j s)
     \<and> (k < length bs \<longrightarrow> flag_at_read irqs k s)
     \<and> (k < length bs \<longrightarrow> g_interrupt_flag (kb_print_loop irqs bs s))"
proof (induction bs arbitrary: irqs s)
  case Nil
  show ?case by simp
next
  case (Cons b bs)
  let ?s1 = "preempt irqs s"
  show ?case
  proof (cases "g_interrupt_flag ?s1")
    case True
    have "0 \<le> length (b # bs)
       \<and> trace (kb_print_loop irqs (b # bs) s) = trace s @ map (\<lambda>b. Hid (KbWrite b)) (take 0 (b # bs))
       \<and> (\<forall>j<0. \<not> flag_at_read irqs j s)
       \<and> (0 < length (b # bs) \<longrightarrow> flag_at_read irqs 0 s)
       \<and> (0 < length (b # bs) \<longrightarrow> g_interrupt_flag (kb_print_loop irqs (b # bs) s))"
      using True by (simp add: Let_def)
    then show ?thesis by blast
  next
    case False
    let ?s2 = "emit [Hid (KbWrite b)] ?s1"
    from Cons.IH [of "tl irqs" ?s2]
    obtain k where k: "k \<le> length bs"
      and tr: "trace (kb_print_loop (tl irqs) bs ?s2) = trace ?s2 @ map (\<lambda>b. Hid (KbWrite b)) (take k bs)"
      and clear: "\<forall>j<k. \<not> flag_at_read (tl irqs) j ?s2"
      and stop: "k < length bs \<longrightarrow> flag_at_read (tl irqs) k ?s2"
      and final: "k < length bs \<longrightarrow> g_interrupt_flag (kb_print_loop (tl irqs) bs ?s2)"
      by blast
    have same: "\<And>j. flag_at_read (tl irqs) j ?s2 = flag_at_read (tl irqs) j ?s1"
      by (rule flag_at_read_button) simp_all
    have step: "kb_print_loop irqs (b # bs) s = kb_print_loop (tl irqs) bs ?s2"
      using False by (simp add: Let_def)
    have before: "\<forall>j<Suc k. \<not> flag_at_read irqs j s"
    proof (intro allI impI)
      fix j assume "j < Suc k"
      then show "\<not> flag_at_read irqs j s"
        using False clear same by (cases j) simp_all
    qed
    have c1: "Suc k \<le> length (b # bs)"
      using k by simp
    have c2: "trace (kb_print_loop irqs (b # bs) s)
           = trace s @ map (\<lambda>b. Hid (KbWrite b)) (take (Suc k) (b # bs))"
      unfolding step tr by simp
    have c4: "Suc k < length (b # bs) \<longrightarrow> flag_at_read irqs (Suc k) s"
      using stop same [of k] by simp
    have c5: "Suc k < length (b # bs) \<longrightarrow> g_interrupt_flag (kb_print_loop irqs (b # bs) s)"
      unfolding step using final by simp
    show ?thesis
      using c1 c2 before c4 c5 by blast
  qed
qed

lemma executeCommand_skipped:
  "g_interrupt_flag s \<Longrightarrow>
   executeCommand t irqs p s = logCommand ''CMD_SKIPPED'' (Some (Lit ''Interrupted'')) t s"
  by (simp add: executeCommand_def)

lemma executeCommand_irqs:
  "cmd p \<noteq> CMD_KB_PRINT \<Longrightarrow> executeCommand t irqs p s = executeCommand t [] p s"
  by (simp add: executeCommand_def Let_def)

lemma executeCommand_print:
  "cmd p = CMD_KB_PRINT \<Longrightarrow> \<not> g_interrupt_flag s \<Longrightarrow>
   executeCommand t irqs p s =
     kb_print_loop irqs (take (unat (param_len p)) (params p))
       (logKeyboardPrint (params p) (param_len p) (logCommand ''KB_PRINT'' None t s))"
  by (simp add: executeCommand_def Let_def cmd_defs)

text \<open>
  C7. \<open>KB_PRINT\<close> walks over its parameter bytes in order and reads the interrupt flag before
  each of them. The \<open>Keyboard.write\<close> calls it makes are exactly those of the first \<open>k\<close>
  bytes, in order, preceded by log lines only, where \<open>k\<close> is the first read at which the
  flag is set: at every read before \<open>k\<close> the flag is clear, at read \<open>k\<close> (if there is
  a byte \<open>k\<close>) it is set, and so a flag set at the read before byte \<open>i\<close> means that byte
  \<open>i\<close> and all later bytes are not written. The loop stops early only with the flag set,
  writes nothing if the flag is set on entry, and writes every byte if the flag is clear on
  entry and no interrupt arrives. For every other opcode the run does not depend on the
  interrupts that arrive after the entry check.
\<close>

theorem kb_print_interruptible:
  assumes "cmd p = CMD_KB_PRINT"
  shows "(\<exists>k pre.
            k \<le> length (take (unat (param_len p)) (params p))
          \<and> (\<forall>e\<in>set pre. is_log e)
          \<and> trace (executeCommand t irqs p s) =
              trace s @ pre
              @ map (\<lambda>b. Hid (KbWrite b)) (take k (take (unat (param_len p)) (params p)))
          \<and> (\<forall>j<k. \<not> flag_at_read irqs j s)
          \<and> (k < length (take (unat (param_len p)) (params p)) \<longrightarrow> flag_at_read irqs k s)
          \<and> (\<forall>i. flag_at_read irqs i s \<longrightarrow> k \<le> i)
          \<and> (k < length (take (unat (param_len p)) (params p))
               \<longrightarrow> g_interrupt_flag (executeCommand t irqs p s))
          \<and> (g_interrupt_flag s \<longrightarrow> k = 0)
          \<and> (\<not> g_interrupt_flag s \<and> (\<forall>i\<in>set irqs. i = None)
               \<longrightarrow> k = length (take (unat (param_len p)) (params p))))
       \<and> (\<forall>p' irqs'. cmd p' \<noteq> CMD_KB_PRINT
            \<longrightarrow> executeCommand t irqs' p' s = executeCommand t [] p' s)"
proof -
  let ?bs = "take (unat (param_len p)) (params p)"
  have first: "\<exists>k pre.
            k \<le> length ?bs
          \<and> (\<forall>e\<in>set pre. is_log e)
          \<and> trace (executeCommand t irqs p s) =
              trace s @ pre @ map (\<lambda>b. Hid (KbWrite b)) (take k ?bs)
          \<and> (\<forall>j<k. \<not> flag_at_read irqs j s)
          \<and> (k < length ?bs \<longrightarrow> flag_at_read irqs k s)
          \<and> (\<forall>i. flag_at_read irqs i s \<longrightarrow> k \<le> i)
          \<and> (k < length ?bs \<longrightarrow> g_interrupt_flag (executeCommand t irqs p s))
          \<and> (g_interrupt_flag s \<longrightarrow> k = 0)
          \<and> (\<not> g_interrupt_flag s \<and> (\<forall>i\<in>set irqs. i = None) \<longrightarrow> k = length ?bs)"
  proof (cases "g_interrupt_flag s")
    case True
    let ?pre = "if g_log_enabled s
                then [Serial1 (ExecLine t ''CMD_SKIPPED'' (Some (Lit ''Interrupted'')))] else []"
    have a2: "\<forall>e\<in>set ?pre. is_log e"
      by auto
    have a3: "trace (executeCommand t irqs p s) =
              trace s @ ?pre @ map (\<lambda>b. Hid (KbWrite b)) (take 0 ?bs)"
      using True by (simp add: executeCommand_skipped logCommand_def)
    have a5: "0 < length ?bs \<longrightarrow> flag_at_read irqs 0 s"
      using flag_at_read_stays [OF True, of irqs 0] by blast
    have a7: "0 < length ?bs \<longrightarrow> g_interrupt_flag (executeCommand t irqs p s)"
      using True by (simp add: executeCommand_skipped logCommand_def)
    have "0 \<le> length ?bs \<and> (\<forall>e\<in>set ?pre. is_log e)
          \<and> trace (executeCommand t irqs p s) =
              trace s @ ?pre @ map (\<lambda>b. Hid (KbWrite b)) (take 0 ?bs)
          \<and> (\<forall>j<0. \<not> flag_at_read irqs j s)
          \<and> (0 < length ?bs \<longrightarrow> flag_at_read irqs 0 s)
          \<and> (\<forall>i. flag_at_read irqs i s \<longrightarrow> 0 \<le> i)
          \<and> (0 < length ?bs \<longrightarrow> g_interrupt_flag (executeCommand t irqs p s))
          \<and> (g_interrupt_flag s \<longrightarrow> (0::nat) = 0)
          \<and> (\<not> g_interrupt_flag s \<and> (\<forall>i\<in>set irqs. i = None) \<longrightarrow> 0 = length ?bs)"
      using a2 a3 a5 a7 True by blast
    then show ?thesis by blast
  next
    case False
    let ?s0 = "logKeyboardPrint (params p) (param_len p) (logCommand ''KB_PRINT'' None t s)"
    let ?pre = "if g_log_enabled s
                then [Serial1 (ExecLine t ''KB_PRINT'' None),
                      Serial1 (TextLine (take (min (unat (param_len p)) 40) (params p))
                                 (unat (param_len p) > 40))]
                else []"
    have s0: "trace ?s0 = trace s @ ?pre" "g_interrupt_flag ?s0 = g_interrupt_flag s"
      "last_button_press ?s0 = last_button_press s"
      by (simp_all add: logCommand_def logKeyboardPrint_def)
    have same: "\<And>j. flag_at_read irqs j ?s0 = flag_at_read irqs j s"
      by (rule flag_at_read_button) (rule s0)+
    have ex: "executeCommand t irqs p s = kb_print_loop irqs ?bs ?s0"
      by (rule executeCommand_print [OF assms False])
    from kb_print_loop_reads [of ?bs irqs ?s0]
    obtain k where k: "k \<le> length ?bs"
      and tr: "trace (kb_print_loop irqs ?bs ?s0) = trace ?s0 @ map (\<lambda>b. Hid (KbWrite b)) (take k ?bs)"
      and clear: "\<forall>j<k. \<not> flag_at_read irqs j ?s0"
      and stop: "k < length ?bs \<longrightarrow> flag_at_read irqs k ?s0"
      and final: "k < length ?bs \<longrightarrow> g_interrupt_flag (kb_print_loop irqs ?bs ?s0)"
      by blast
    have a2: "\<forall>e\<in>set ?pre. is_log e"
      by auto
    have a3: "trace (executeCommand t irqs p s) =
              trace s @ ?pre @ map (\<lambda>b. Hid (KbWrite b)) (take k ?bs)"
      unfolding ex tr s0(1) by simp
    have a4: "\<forall>j<k. \<not> flag_at_read irqs j s"
      using clear same by simp
    have a5: "k < length ?bs \<longrightarrow> flag_at_read irqs k s"
      using stop same by simp
    have a6: "\<forall>i. flag_at_read irqs i s \<longrightarrow> k \<le> i"
      using a4 by (meson not_le_imp_less)
    have a7: "k < length ?bs \<longrightarrow> g_interrupt_flag (executeCommand t irqs p s)"
      unfolding ex using final by simp
    have a9: "\<not> g_interrupt_flag s \<and> (\<forall>i\<in>set irqs. i = None) \<longrightarrow> k = length ?bs"
    proof
      assume q: "\<not> g_interrupt_flag s \<and> (\<forall>i\<in>set irqs. i = None)"
      then have "\<not> flag_at_read irqs k s"
        using flag_at_read_quiet [of s irqs k] by blast
      then show "k = length ?bs"
        using a5 k by linarith
    qed
    have "k \<le> length ?bs \<and> (\<forall>e\<in>set ?pre. is_log e)
          \<and> trace (executeCommand t irqs p s) =
              trace s @ ?pre @ map (\<lambda>b. Hid (KbWrite b)) (take k ?bs)
          \<and> (\<forall>j<k. \<not> flag_at_read irqs j s)
          \<and> (k < length ?bs \<longrightarrow> flag_at_read irqs k s)
          \<and> (\<forall>i. flag_at_read irqs i s \<longrightarrow> k \<le> i)
          \<and> (k < length ?bs \<longrightarrow> g_interrupt_flag (executeCommand t irqs p s))
          \<and> (g_interrupt_flag s \<longrightarrow> k = 0)
          \<and> (\<not> g_interrupt_flag s \<and> (\<forall>i\<in>set irqs. i = None) \<longrightarrow> k = length ?bs)"
      using k a2 a3 a4 a5 a6 a7 a9 False by blast
    then show ?thesis by blast
  qed
  show ?thesis
    using first executeCommand_irqs by blast
qed

theorem kb_print_interruptible_witness:
  "cmd print_packet = CMD_KB_PRINT
   \<and> \<not> flag_at_read [None, None, Some 100] 0 init_state
   \<and> \<not> flag_at_read [None, None, Some 100] 1 init_state
   \<and> flag_at_read [None, None, Some 100] 2 init_state
   \<and> trace (executeCommand 0 [None, None, Some 100] print_packet init_state) =
       [Serial1 (ExecLine 0 ''KB_PRINT'' None),
        Serial1 (TextLine [0x68, 0x65, 0x6C, 0x6C, 0x6F] False),
        Hid (KbWrite 0x68), Hid (KbWrite 0x65)]
   \<and> g_interrupt_flag (executeCommand 0 [None, None, Some 100] print_packet init_state)
   \<and> hid_calls (trace (executeCommand 0 [] print_packet init_state)) =
       [KbWrite 0x68, KbWrite 0x65, KbWrite 0x6C, KbWrite 0x6C, KbWrite 0x6F]"
proof -
  have h: "cmd print_packet = CMD_KB_PRINT"
    by (simp add: print_packet_def)
  have reads: "\<not> flag_at_read [None, None, Some 100] 0 init_state"
    "\<not> flag_at_read [None, None, Some 100] 1 init_state"
    "flag_at_read [None, None, Some 100] 2 init_state"
    by code_simp+
  have run1: "trace (executeCommand 0 [None, None, Some 100] print_packet init_state) =
       [Serial1 (ExecLine 0 ''KB_PRINT'' None),
        Serial1 (TextLine [0x68, 0x65, 0x6C, 0x6C, 0x6F] False),
        Hid (KbWrite 0x68), Hid (KbWrite 0x65)]"
    by code_simp
  have run2: "g_interrupt_flag (executeCommand 0 [None, None, Some 100] print_packet init_state)"
    by code_simp
  have run3: "hid_calls (trace (executeCommand 0 [] print_packet init_state)) =
       [KbWrite 0x68, KbWrite 0x65, KbWrite 0x6C, KbWrite 0x6C, KbWrite 0x6F]"
    by code_simp
  show ?thesis
    using h reads run1 run2 run3
      kb_print_interruptible [OF h, of 0 "[None, None, Some 100]" init_state]
    by blast
qed

lemma protocol_simps [simp]:
  "protocol [] = []"
  "protocol (xs @ ys) = protocol xs @ protocol ys"
  "protocol (Serial1 l # es) = protocol es"
  "protocol (SerialWrite a # es) = SerialWrite a # protocol es"
  "protocol (Hid c # es) = Hid c # protocol es"
  by (simp_all add: protocol_def)

text \<open>
  What holds of C3: a command whose parameter count does not fit its opcode makes no HID call
  and sends no byte on the primary link, and changes nothing but the logger.
\<close>

lemma arity_mismatch_dropped:
  assumes "\<not> g_interrupt_flag s"
      and "(cmd p \<in> {CMD_MOUSE_MOVE, CMD_MOUSE_PRESS_TIMED, CMD_KB_PRESS_TIMED} \<and> param_len p \<noteq> 3)
         \<or> (cmd p \<in> {CMD_MOUSE_PRESS, CMD_MOUSE_RELEASE, CMD_MOUSE_CLICK,
                      CMD_KB_PRESS, CMD_KB_RELEASE, CMD_KB_WRITE} \<and> param_len p \<noteq> 1)"
  shows "protocol (trace (executeCommand t irqs p s)) = protocol (trace s)"
    and "cmdQueue (executeCommand t irqs p s) = cmdQueue s"
    and "timedAction (executeCommand t irqs p s) = timedAction s"
  using assms
  by (auto simp add: executeCommand_def Let_def cmd_defs logParamError_def logError_def)

text \<open>
  C3 on the code: only \<open>MOUSE_MOVE\<close> reports the mismatch to the logger. With logging
  enabled and no interrupt pending, \<open>MOUSE_PRESS\<close> with two parameter bytes leaves the whole
  state, log included, as it was, while \<open>MOUSE_MOVE\<close> with two parameter bytes prints the
  \<open>PARAM_ERROR\<close> line.
\<close>

theorem arity_mismatch_unlogged:
  "g_log_enabled init_state \<and> \<not> g_interrupt_flag init_state
   \<and> cmd press_two_params = CMD_MOUSE_PRESS \<and> param_len press_two_params = 2
   \<and> executeCommand 0 [] press_two_params init_state = init_state
   \<and> trace (executeCommand 0 [] press_two_params init_state) = []
   \<and> trace (executeCommand 0 [] move_two_params init_state) =
       [Serial1 (ErrorLine 0 ''PARAM_ERROR''
          (Some (Fmt ''CMD 0x%02X needs %d bytes, got %d'' [I 1, I 3, I 2])) 1)]"
  by code_simp

section \<open>Step 4 of the loop\<close>

text \<open>
  C2 as stated fails on the code: \<open>loop\<close> tests the timed action and the queue, pops, and
  only then \<open>executeCommand\<close> reads the interrupt flag. In the first iteration after reset,
  with the click frame waiting and the button pressed after the frame's last byte, the
  receive loop ends with the flag set and one command queued, and step 4 pops that command
  (the queue is empty afterwards) without making any HID call.
\<close>

theorem pop_with_flag_set:
  "loop_receive 100 (map RxByte click_frame @ [RxEdge 100]) init_state = Some before_step4
   \<and> g_interrupt_flag before_step4
   \<and> \<not> active (timedAction before_step4)
   \<and> count (cmdQueue before_step4) = 1
   \<and> count (cmdQueue (loop_execute 100 [] before_step4)) = 0
   \<and> hid_calls (trace (loop_execute 100 [] before_step4)) = []"
  by code_simp

text \<open>
  C2 as the code has it. Step 4 leaves the state alone when a timed action is active or the
  queue is empty. Otherwise it pops the head of the queue, whatever the interrupt flag, and
  passes it to \<open>executeCommand\<close>; with the flag set the popped command is not run: only
  the \<open>CMD_SKIPPED\<close> line goes to the logger, and nothing reaches the primary link or the
  HID driver.
\<close>

theorem execute_guard:
  "(active (timedAction s) \<or> isEmpty (cmdQueue s) \<longrightarrow> loop_execute t irqs s = s)
   \<and> (\<not> active (timedAction s) \<and> \<not> isEmpty (cmdQueue s) \<longrightarrow>
        (\<exists>packet q.
            pop (cmdQueue s) = Some (packet, q)
          \<and> packet = queue (cmdQueue s) ! unat (head (cmdQueue s))
          \<and> count q = count (cmdQueue s) - 1
          \<and> loop_execute t irqs s = executeCommand t irqs packet (s\<lparr>cmdQueue := q\<rparr>)
          \<and> (g_interrupt_flag s \<longrightarrow>
                loop_execute t irqs s =
                  logCommand ''CMD_SKIPPED'' (Some (Lit ''Interrupted'')) t (s\<lparr>cmdQueue := q\<rparr>)
              \<and> protocol (trace (loop_execute t irqs s)) = protocol (trace s))))"
  by (auto simp add: loop_execute_def isEmpty_def pop_def executeCommand_skipped logCommand_def)

theorem execute_guard_witness:
  "\<not> active (timedAction before_step4) \<and> \<not> isEmpty (cmdQueue before_step4)
   \<and> g_interrupt_flag before_step4
   \<and> protocol (trace (loop_execute 100 [] before_step4)) = protocol (trace before_step4)
   \<and> (active (timedAction timed_irq_state)
        \<and> loop_execute 100 [] timed_irq_state = timed_irq_state)"
proof -
  have h: "\<not> active (timedAction before_step4)" "\<not> isEmpty (cmdQueue before_step4)"
    "g_interrupt_flag before_step4" "active (timedAction timed_irq_state)"
    by code_simp+
  show ?thesis
    using h execute_guard [of before_step4 100 "[]"] execute_guard [of timed_irq_state 100 "[]"]
    by blast
qed

section \<open>The queue-clear fast path\<close>

text \<open>
  C8 as stated fails on the code: the fast path goes through \<open>executeCommand\<close>, whose first
  statement skips the command when the interrupt flag is set. With the click queued and the
  button pressed, a \<open>CLEAR_QUEUE\<close> payload is answered with \<open>ACK_SUCCESS\<close> and the queue
  still holds the click; the same is seen on the wire when the \<open>CLEAR_QUEUE\<close> frame
  follows the button press within one receive loop.
\<close>

theorem clear_queue_skipped:
  "g_interrupt_flag before_step4
   \<and> count (cmdQueue before_step4) = 1
   \<and> clear_payload ! 0 = CMD_CLEAR_QUEUE
   \<and> count (cmdQueue (processPacket 100 clear_payload 1 before_step4)) = 1
   \<and> protocol (trace (processPacket 100 clear_payload 1 before_step4)) =
        protocol (trace before_step4) @ [SerialWrite ACK_SUCCESS]
   \<and> loop_receive 100 (map RxByte click_frame @ [RxEdge 100] @ map RxByte clear_frame) init_state
        = Some after_clear_frame
   \<and> count (cmdQueue after_clear_frame) = 1
   \<and> protocol (trace after_clear_frame) = [SerialWrite ACK_SUCCESS, SerialWrite ACK_SUCCESS]"
  by code_simp

text \<open>
  C8 as the code has it. A payload with opcode \<open>CLEAR_QUEUE\<close> is always answered with the
  one byte \<open>ACK_SUCCESS = 0xF0\<close>. With the interrupt flag clear the queue is emptied
  (\<open>head\<close>, \<open>tail\<close> and \<open>count\<close> become 0, the slots are not written); with the flag set
  the queue is left as it is. In both cases nothing but the queue, the logger's counters
  and the output changes: the timed action, the flags, the parser and the timers keep
  their values. On an empty queue with the flag clear the queue is empty afterwards.
\<close>

theorem clear_queue_frame:
  assumes "1 \<le> len" and "data ! 0 = CMD_CLEAR_QUEUE"
  shows "(let s' = processPacket t data len s in
            cmdQueue s' = (if g_interrupt_flag s then cmdQueue s else clear (cmdQueue s))
          \<and> (\<not> g_interrupt_flag s \<longrightarrow> isEmpty (cmdQueue s') \<and> count (cmdQueue s') = 0)
          \<and> queue (cmdQueue s') = queue (cmdQueue s)
          \<and> timedAction s' = timedAction s
          \<and> s' = s\<lparr>cmdQueue := cmdQueue s', logger := logger s', trace := trace s'\<rparr>
          \<and> protocol (trace s') = protocol (trace s) @ [SerialWrite ACK_SUCCESS])
       \<and> ACK_SUCCESS = 0xF0"
  using assms
  by (simp add: processPacket_def make_packet_def executeCommand_def Let_def cmd_defs logger_defs
        ack_defs ack_name_def clear_def isEmpty_def emit_def word_le_nat_alt word_less_nat_alt)

theorem clear_queue_frame_witness:
  "(1 :: u8) \<le> 1 \<and> clear_payload ! 0 = CMD_CLEAR_QUEUE
   \<and> \<not> g_interrupt_flag (processPacket 0 [CMD_MOUSE_CLICK, MOUSE_LEFT] 2 init_state)
   \<and> count (cmdQueue (processPacket 0 [CMD_MOUSE_CLICK, MOUSE_LEFT] 2 init_state)) = 1
   \<and> isEmpty (cmdQueue (processPacket 100 clear_payload 1
                 (processPacket 0 [CMD_MOUSE_CLICK, MOUSE_LEFT] 2 init_state)))
   \<and> timedAction (processPacket 100 clear_payload 1
                 (processPacket 0 [CMD_MOUSE_CLICK, MOUSE_LEFT] 2 init_state)) =
        timedAction (processPacket 0 [CMD_MOUSE_CLICK, MOUSE_LEFT] 2 init_state)
   \<and> protocol (trace (processPacket 100 clear_payload 1
                 (processPacket 0 [CMD_MOUSE_CLICK, MOUSE_LEFT] 2 init_state))) =
        [SerialWrite ACK_SUCCESS, SerialWrite ACK_SUCCESS]"
proof -
  let ?s = "processPacket 0 [CMD_MOUSE_CLICK, MOUSE_LEFT] 2 init_state"
  have h1: "(1 :: u8) \<le> 1"
    by simp
  have h2: "clear_payload ! 0 = CMD_CLEAR_QUEUE"
    by (simp add: clear_payload_def)
  have before: "\<not> g_interrupt_flag ?s" "count (cmdQueue ?s) = 1"
    "protocol (trace ?s) = [SerialWrite ACK_SUCCESS]"
    by code_simp+
  show ?thesis
    using h1 h2 before clear_queue_frame [OF h1 h2, of 100 ?s]
    by (simp add: Let_def isEmpty_def clear_def)
qed

section \<open>Logging does not interfere with the protocol\<close>

lemma protocol_idem [simp]: "protocol (protocol es) = protocol es"
  by (simp add: protocol_def)

lemma obs_strip [simp]: "obs (strip s) = obs s"
  by (simp add: obs_def strip_def parser_fields_def)

lemma strip_cong: "obs s = obs s' \<Longrightarrow> strip s = strip s'"
  by (cases s; cases s') (simp add: obs_def strip_def parser_fields_def)

lemma loweq_refl [simp]: "loweq s s"
  by (simp add: loweq_def)

lemma loweq_sym: "loweq s s' \<Longrightarrow> loweq s' s"
  unfolding loweq_def by (rule sym)

lemma loweq_trans: "loweq s s' \<Longrightarrow> loweq s' s'' \<Longrightarrow> loweq s s''"
  unfolding loweq_def by (rule trans)

lemma loweq_strip [simp]: "loweq (strip s) s" "loweq s (strip s)"
  by (simp_all add: loweq_def)

text \<open>A function that gives the same observation on a state and on its stripped state
  respects \<open>loweq\<close>.\<close>

lemma respects:
  assumes "\<And>s. obs (f s) = obs (f (strip s))"
      and "loweq s s'"
  shows "loweq (f s) (f s')"
proof -
  have eq: "strip s = strip s'"
    using assms(2) unfolding loweq_def by (rule strip_cong)
  have "obs (f s) = obs (f (strip s))"
    by (rule assms(1))
  also have "\<dots> = obs (f (strip s'))"
    unfolding eq by (rule refl)
  also have "\<dots> = obs (f s')"
    by (rule assms(1) [symmetric])
  finally show ?thesis
    unfolding loweq_def .
qed

lemma buttonISR_loweq: "loweq s s' \<Longrightarrow> loweq (buttonISR te s) (buttonISR te s')"
  by (rule respects [where f = "buttonISR te"])
     (simp_all add: obs_def strip_def parser_fields_def buttonISR_def)

lemma preempt_loweq: "loweq s s' \<Longrightarrow> loweq (preempt irqs s) (preempt irqs s')"
  by (simp add: preempt_def buttonISR_loweq split: list.splits option.splits)

lemma loop_interrupt_loweq: "loweq s s' \<Longrightarrow> loweq (loop_interrupt t s) (loop_interrupt t s')"
  by (rule respects [where f = "loop_interrupt t"])
     (simp_all add: obs_def strip_def parser_fields_def loop_interrupt_def Let_def logger_defs
        release_timed_def deactivate_def clear_def)

lemma loop_timed_loweq: "loweq s s' \<Longrightarrow> loweq (loop_timed t s) (loop_timed t s')"
  by (rule respects [where f = "loop_timed t"])
     (simp_all add: obs_def strip_def parser_fields_def loop_timed_def Let_def logger_defs
        release_timed_def deactivate_def)

lemma loop_stats_loweq: "loweq s s' \<Longrightarrow> loweq (loop_stats t s) (loop_stats t s')"
  by (rule respects [where f = "loop_stats t"])
     (simp_all add: obs_def strip_def parser_fields_def loop_stats_def Let_def logger_defs
        reset_counter_def)
lemma loweq_fields:
  assumes "loweq s s'"
  shows "g_interrupt_flag s = g_interrupt_flag s'"
    and "last_button_press s = last_button_press s'"
    and "cmdQueue s = cmdQueue s'"
    and "rx_buffer s = rx_buffer s'"
    and "rx_state s = rx_state s'"
    and "rx_len s = rx_len s'"
    and "rx_idx s = rx_idx s'"
    and "timedAction s = timedAction s'"
    and "last_stats_time s = last_stats_time s'"
    and "protocol (trace s) = protocol (trace s')"
  using assms by (simp_all add: loweq_def obs_def parser_fields_def)

text \<open>The logger's methods change nothing that is observed.\<close>

lemma obs_logger [simp]:
  "obs (logQueueStatus t s) = obs s"
  "obs (logPacketReceived len t s) = obs s"
  "obs (logPacketData data len s) = obs s"
  "obs (logCommand cmd_name details t s) = obs s"
  "obs (logInterrupt t s) = obs s"
  "obs (logLogStateChange enabled s) = obs s"
  "obs (logMouseMove x y wheel t s) = obs s"
  "obs (logMouseButton action button t s) = obs s"
  "obs (logKeyboard action key t s) = obs s"
  "obs (logKeyboardPrint txt len s) = obs s"
  "obs (logError error_type details t s) = obs s"
  "obs (logCRCError expected received t s) = obs s"
  "obs (logInvalidCommand c t s) = obs s"
  "obs (logParamError c expected received t s) = obs s"
  "obs (logACK ack_code t s) = obs s"
  "obs (logStats t s) = obs s"
  by (simp_all add: obs_def parser_fields_def logger_defs Let_def)

lemma obs_log_flag [simp]:
  "obs (s\<lparr>g_log_enabled := e\<rparr>) = obs s"
  by (simp add: obs_def parser_fields_def)

lemma loweq_left: "obs a = obs s \<Longrightarrow> obs b = obs s' \<Longrightarrow> loweq s s' \<Longrightarrow> loweq a b"
  by (simp add: loweq_def)

lemma emit_loweq: "loweq s s' \<Longrightarrow> loweq (emit es s) (emit es s')"
  by (simp add: loweq_def obs_def parser_fields_def)

lemma sendAck_loweq: "loweq s s' \<Longrightarrow> loweq (sendAck a t s) (sendAck a t s')"
  by (simp add: sendAck_def loweq_def) (simp add: obs_def parser_fields_def)

lemma kb_print_loop_loweq:
  "loweq s s' \<Longrightarrow> loweq (kb_print_loop irqs bs s) (kb_print_loop irqs bs s')"
proof (induction bs arbitrary: irqs s s')
  case Nil
  then show ?case by simp
next
  case (Cons b bs)
  have p: "loweq (preempt irqs s) (preempt irqs s')"
    using Cons.prems by (rule preempt_loweq)
  have flag: "g_interrupt_flag (preempt irqs s) = g_interrupt_flag (preempt irqs s')"
    using p by (rule loweq_fields)
  show ?case
  proof (cases "g_interrupt_flag (preempt irqs s)")
    case True
    then show ?thesis using p flag by (simp add: Let_def)
  next
    case False
    have "loweq (kb_print_loop (tl irqs) bs (emit [Hid (KbWrite b)] (preempt irqs s)))
                (kb_print_loop (tl irqs) bs (emit [Hid (KbWrite b)] (preempt irqs s')))"
      by (rule Cons.IH) (rule emit_loweq [OF p])
    then show ?thesis using False flag by (simp add: Let_def)
  qed
qed

lemma executeCommand_other_obs:
  assumes "cmd p \<noteq> CMD_KB_PRINT"
  shows "obs (executeCommand t [] p s) = obs (executeCommand t [] p (strip s))"
proof (cases "g_interrupt_flag s")
  case True
  then have "g_interrupt_flag (strip s)"
    by (simp add: strip_def)
  then show ?thesis
    using True by (simp add: executeCommand_skipped)
next
  case f: False
  consider (c0) "cmd p = CMD_MOUSE_MOVE" | (c1) "cmd p = CMD_MOUSE_PRESS" | (c2) "cmd p = CMD_MOUSE_RELEASE" | (c3) "cmd p = CMD_MOUSE_CLICK" | (c4) "cmd p = CMD_MOUSE_PRESS_TIMED" | (c5) "cmd p = CMD_KB_PRESS" | (c6) "cmd p = CMD_KB_RELEASE" | (c7) "cmd p = CMD_KB_WRITE" | (c8) "cmd p = CMD_KB_RELEASE_ALL" | (c9) "cmd p = CMD_KB_PRESS_TIMED" | (c10) "cmd p = CMD_PAUSE_LOG" | (c11) "cmd p = CMD_RESUME_LOG" | (c12) "cmd p = CMD_CLEAR_QUEUE"
    | (other) "cmd p \<notin> {CMD_MOUSE_MOVE, CMD_MOUSE_PRESS, CMD_MOUSE_RELEASE, CMD_MOUSE_CLICK, CMD_MOUSE_PRESS_TIMED, CMD_KB_PRESS, CMD_KB_RELEASE, CMD_KB_WRITE, CMD_KB_RELEASE_ALL, CMD_KB_PRESS_TIMED, CMD_PAUSE_LOG, CMD_RESUME_LOG, CMD_CLEAR_QUEUE, CMD_KB_PRINT}"
    using assms by blast
  then show ?thesis
  proof cases
    case c0
    then show ?thesis
      using f
      by (simp add: executeCommand_def Let_def cmd_defs obs_def strip_def parser_fields_def
            logger_defs start_timed_def clear_def)
  next
    case c1
    then show ?thesis
      using f
      by (simp add: executeCommand_def Let_def cmd_defs obs_def strip_def parser_fields_def
            logger_defs start_timed_def clear_def)
  next
    case c2
    then show ?thesis
      using f
      by (simp add: executeCommand_def Let_def cmd_defs obs_def strip_def parser_fields_def
            logger_defs start_timed_def clear_def)
  next
    case c3
    then show ?thesis
      using f
      by (simp add: executeCommand_def Let_def cmd_defs obs_def strip_def parser_fields_def
            logger_defs start_timed_def clear_def)
  next
    case c4
    then show ?thesis
      using f
      by (simp add: executeCommand_def Let_def cmd_defs obs_def strip_def parser_fields_def
            logger_defs start_timed_def clear_def)
  next
    case c5
    then show ?thesis
      using f
      by (simp add: executeCommand_def Let_def cmd_defs obs_def strip_def parser_fields_def
            logger_defs start_timed_def clear_def)
  next
    case c6
    then show ?thesis
      using f
      by (simp add: executeCommand_def Let_def cmd_defs obs_def strip_def parser_fields_def
            logger_defs start_timed_def clear_def)
  next
    case c7
    then show ?thesis
      using f
      by (simp add: executeCommand_def Let_def cmd_defs obs_def strip_def parser_fields_def
            logger_defs start_timed_def clear_def)
  next
    case c8
    then show ?thesis
      using f
      by (simp add: executeCommand_def Let_def cmd_defs obs_def strip_def parser_fields_def
            logger_defs start_timed_def clear_def)
  next
    case c9
    then show ?thesis
      using f
      by (simp add: executeCommand_def Let_def cmd_defs obs_def strip_def parser_fields_def
            logger_defs start_timed_def clear_def)
  next
    case c10
    then show ?thesis
      using f
      by (simp add: executeCommand_def Let_def cmd_defs obs_def strip_def parser_fields_def
            logger_defs start_timed_def clear_def)
  next
    case c11
    then show ?thesis
      using f
      by (simp add: executeCommand_def Let_def cmd_defs obs_def strip_def parser_fields_def
            logger_defs start_timed_def clear_def)
  next
    case c12
    then show ?thesis
      using f
      by (simp add: executeCommand_def Let_def cmd_defs obs_def strip_def parser_fields_def
            logger_defs start_timed_def clear_def)
  next
    case other
    then show ?thesis
      using f
      by (simp add: executeCommand_def Let_def obs_def strip_def parser_fields_def
            logger_defs)
  qed
qed

lemma executeCommand_other_loweq:
  assumes "cmd p \<noteq> CMD_KB_PRINT" and "loweq s s'"
  shows "loweq (executeCommand t [] p s) (executeCommand t [] p s')"
  by (rule respects [where f = "executeCommand t [] p"])
     (rule executeCommand_other_obs [OF assms(1)], rule assms(2))

lemma executeCommand_loweq:
  assumes "loweq s s'"
  shows "loweq (executeCommand t irqs p s) (executeCommand t irqs p s')"
proof (cases "cmd p = CMD_KB_PRINT")
  case False
  have "executeCommand t irqs p s = executeCommand t [] p s"
    and "executeCommand t irqs p s' = executeCommand t [] p s'"
    by (rule executeCommand_irqs [OF False])+
  then show ?thesis
    using executeCommand_other_loweq [OF False assms, of t] by simp
next
  case True
  have flag: "g_interrupt_flag s = g_interrupt_flag s'"
    using assms by (rule loweq_fields)
  show ?thesis
  proof (cases "g_interrupt_flag s")
    case t: True
    then have "g_interrupt_flag s'" using flag by simp
    then show ?thesis
      using t assms by (simp add: executeCommand_skipped loweq_def)
  next
    case f: False
    then have f': "\<not> g_interrupt_flag s'" using flag by simp
    have "loweq (logKeyboardPrint (params p) (param_len p) (logCommand ''KB_PRINT'' None t s))
                (logKeyboardPrint (params p) (param_len p) (logCommand ''KB_PRINT'' None t s'))"
      using assms by (simp add: loweq_def)
    then show ?thesis
      by (simp add: executeCommand_print [OF True f] executeCommand_print [OF True f']
            kb_print_loop_loweq)
  qed
qed
lemma log_loweq:
  "loweq a b \<Longrightarrow> loweq (logError e d t a) (logError e d t b)"
  "loweq a b \<Longrightarrow> loweq (logQueueStatus t a) (logQueueStatus t b)"
  "loweq a b \<Longrightarrow> loweq (logPacketData data len a) (logPacketData data len b)"
  "loweq a b \<Longrightarrow> loweq (logCRCError x y t a) (logCRCError x y t b)"
  "loweq a b \<Longrightarrow> loweq (logPacketReceived len t a) (logPacketReceived len t b)"
  by (simp_all add: loweq_def)

lemma update_loweq:
  "loweq a b \<Longrightarrow> loweq (a\<lparr>cmdQueue := q\<rparr>) (b\<lparr>cmdQueue := q\<rparr>)"
  "loweq a b \<Longrightarrow> loweq (a\<lparr>rx_buffer := buf\<rparr>) (b\<lparr>rx_buffer := buf\<rparr>)"
  "loweq a b \<Longrightarrow> loweq (a\<lparr>rx_state := st\<rparr>) (b\<lparr>rx_state := st\<rparr>)"
  "loweq a b \<Longrightarrow> loweq (a\<lparr>rx_len := n\<rparr>) (b\<lparr>rx_len := n\<rparr>)"
  "loweq a b \<Longrightarrow> loweq (a\<lparr>rx_idx := i\<rparr>) (b\<lparr>rx_idx := i\<rparr>)"
  by (simp_all add: loweq_def obs_def parser_fields_def)

lemma processPacket_loweq:
  assumes "loweq s s'"
  shows "loweq (processPacket t data len s) (processPacket t data len s')"
proof -
  have l1: "loweq (logPacketData data len s) (logPacketData data len s')"
    using assms by (rule log_loweq)
  have q: "cmdQueue (logPacketData data len s) = cmdQueue (logPacketData data len s')"
    using l1 by (rule loweq_fields)
  show ?thesis
  proof (cases "len < 1")
    case True
    then show ?thesis
      using assms by (simp add: processPacket_def sendAck_loweq log_loweq)
  next
    case False
    show ?thesis
    proof (cases "data ! 0 = CMD_PAUSE_LOG \<or> data ! 0 = CMD_RESUME_LOG \<or> data ! 0 = CMD_CLEAR_QUEUE")
      case True
      then show ?thesis
        using False l1
        by (simp add: processPacket_def Let_def make_packet_def sendAck_loweq executeCommand_loweq)
    next
      case control: False
      obtain ok q' where p: "push (make_packet t data len) (cmdQueue (logPacketData data len s')) = (ok, q')"
        by (cases "push (make_packet t data len) (cmdQueue (logPacketData data len s'))") auto
      show ?thesis
        using False control l1 p q
        by (cases ok)
           (simp_all add: processPacket_def Let_def make_packet_def sendAck_loweq log_loweq
              update_loweq)
    qed
  qed
qed

lemma rel_option_loweq_Some: "loweq a b \<Longrightarrow> rel_option loweq (Some a) (Some b)"
  by simp

lemma rx_byte_loweq:
  assumes "loweq s s'"
  shows "rel_option loweq (rx_byte t b s) (rx_byte t b s')"
proof -
  note f = loweq_fields [OF assms]
  consider (sync) "rx_state s = 0" | (len) "rx_state s = 1" | (payload) "rx_state s = 2"
    | (none) "rx_state s \<noteq> 0" "rx_state s \<noteq> 1" "rx_state s \<noteq> 2"
    by blast
  then show ?thesis
  proof cases
    case sync
    then show ?thesis
      using f(5) assms by (simp add: rx_byte_def update_loweq)
  next
    case len
    have l1: "loweq (s\<lparr>rx_len := b\<rparr>) (s'\<lparr>rx_len := b\<rparr>)"
      using assms by (rule update_loweq)
    show ?thesis
      using len f(5) l1
      by (simp add: rx_byte_def Let_def update_loweq sendAck_loweq log_loweq)
  next
    case payload
    let ?u = "\<lambda>x. x\<lparr>rx_buffer := (rx_buffer s)[unat (rx_idx s) := b], rx_idx := rx_idx s + 1\<rparr>"
    have l1: "loweq (?u s) (?u s')"
      using assms by (simp add: update_loweq)
    have good: "loweq ((processPacket t (rx_buffer (?u s)) (rx_len s) (?u s))\<lparr>rx_state := 0, rx_idx := 0\<rparr>)
                      ((processPacket t (rx_buffer (?u s)) (rx_len s) (?u s'))\<lparr>rx_state := 0, rx_idx := 0\<rparr>)"
      using l1 by (simp add: update_loweq processPacket_loweq)
    have bad: "\<And>x y. loweq ((sendAck ACK_CRC_ERROR t (logCRCError x y t (?u s)))\<lparr>rx_state := 0, rx_idx := 0\<rparr>)
                      ((sendAck ACK_CRC_ERROR t (logCRCError x y t (?u s')))\<lparr>rx_state := 0, rx_idx := 0\<rparr>)"
      using l1 by (simp add: update_loweq sendAck_loweq log_loweq)
    show ?thesis
      using payload f(4,5,6,7) l1 good bad
      by (simp add: rx_byte_def Let_def)
  next
    case none
    then show ?thesis
      using f(5) assms by (simp add: rx_byte_def)
  qed
qed

lemma loop_receive_loweq:
  "loweq s s' \<Longrightarrow> rel_option loweq (loop_receive t evs s) (loop_receive t evs s')"
proof (induction evs arbitrary: s s')
  case Nil
  then show ?case by simp
next
  case (Cons ev evs)
  show ?case
  proof (cases ev)
    case (RxEdge te)
    then show ?thesis
      using Cons.IH [OF buttonISR_loweq [OF Cons.prems]] by simp
  next
    case (RxByte b)
    from rx_byte_loweq [OF Cons.prems, of t b]
    show ?thesis
      using RxByte Cons.IH
      by (cases "rx_byte t b s"; cases "rx_byte t b s'") simp_all
  qed
qed

lemma loop_execute_loweq:
  assumes "loweq s s'"
  shows "loweq (loop_execute t irqs s) (loop_execute t irqs s')"
proof -
  note f = loweq_fields [OF assms]
  show ?thesis
    using assms f(3,8)
    by (simp add: loop_execute_def update_loweq executeCommand_loweq split: option.splits)
qed

lemma loop_loweq:
  assumes "loweq s s'"
  shows "rel_option loweq (loop env s) (loop env s')"
proof -
  let ?t = "now_ms env"
  let ?f = "\<lambda>x. loop_timed ?t (loop_interrupt ?t (preempt [irq_top env] x))"
  have "loweq (?f s) (?f s')"
    using assms by (intro loop_timed_loweq loop_interrupt_loweq preempt_loweq)
  then have r: "rel_option loweq (loop_receive ?t (serial_in env) (?f s))
                                 (loop_receive ?t (serial_in env) (?f s'))"
    by (rule loop_receive_loweq)
  show ?thesis
    using r
    by (cases "loop_receive ?t (serial_in env) (?f s)";
        cases "loop_receive ?t (serial_in env) (?f s')")
       (simp_all add: loop_def Let_def loop_stats_loweq loop_execute_loweq)
qed

lemma run_loweq:
  "loweq s s' \<Longrightarrow> rel_option loweq (run envs s) (run envs s')"
proof (induction envs arbitrary: s s')
  case Nil
  then show ?case by simp
next
  case (Cons env envs)
  from loop_loweq [OF Cons.prems, of env]
  show ?case
    using Cons.IH
    by (cases "loop env s"; cases "loop env s'") simp_all
qed
text \<open>
  C9 as stated fails on the code: it fixes the inbound bytes and the button interrupts of
  the two runs, not how the bytes fall into iterations of \<open>loop\<close> nor what the clock
  reads, and the protocol depends on both. Seventeen click frames that all wait in one
  receive loop fill the queue, and the seventeenth is answered \<open>ACK_PARAM_ERROR\<close>; with
  the seventeenth arriving one iteration later, step 4 has made room and it is answered
  \<open>ACK_SUCCESS\<close>. The first run has logging enabled, the second has it paused; the time
  the log output takes is what moves bytes from one iteration to the next.
\<close>

theorem arrival_split_changes_acks:
  "loweq init_state (init_state\<lparr>g_log_enabled := False\<rparr>)
   \<and> concat (map serial_in [burst_env]) = map RxByte (concat (replicate 17 click_frame))
   \<and> concat (map serial_in split_envs) = map RxByte (concat (replicate 17 click_frame))
   \<and> map irq_top [burst_env] = [None] \<and> map irq_top split_envs = [None, None]
   \<and> run [burst_env] init_state \<noteq> None
   \<and> run split_envs (init_state\<lparr>g_log_enabled := False\<rparr>) \<noteq> None
   \<and> acks (trace (the (run [burst_env] init_state)))
        = replicate 16 ACK_SUCCESS @ [ACK_PARAM_ERROR]
   \<and> acks (trace (the (run split_envs (init_state\<lparr>g_log_enabled := False\<rparr>))))
        = replicate 17 ACK_SUCCESS
   \<and> hid_calls (trace (the (run [burst_env] init_state))) = [MouseClick MOUSE_LEFT]
   \<and> hid_calls (trace (the (run split_envs (init_state\<lparr>g_log_enabled := False\<rparr>))))
        = [MouseClick MOUSE_LEFT, MouseClick MOUSE_LEFT]"
  by code_simp

text \<open>
  C9 as the code has it. Take two states that agree on everything but the logging state
  (\<open>g_log_enabled\<close>, the logger's counters, the lines already printed on the log link) and
  feed both the same iterations: the same clock readings, the same inbound bytes in the
  same iterations (pause and resume frames among them) and the same button interrupts at
  the same points. Then either both runs write outside the receive buffer or neither does,
  the two final states agree again on everything but the logging state, and the bytes
  written to the primary link and the HID calls are the same sequence in both runs.
\<close>

theorem logging_noninterference:
  assumes "loweq s s'"
  shows "rel_option loweq (run envs s) (run envs s')
       \<and> map_option (\<lambda>x. protocol (trace x)) (run envs s)
           = map_option (\<lambda>x. protocol (trace x)) (run envs s')"
proof -
  have r: "rel_option loweq (run envs s) (run envs s')"
    using assms by (rule run_loweq)
  then have "map_option (\<lambda>x. protocol (trace x)) (run envs s)
           = map_option (\<lambda>x. protocol (trace x)) (run envs s')"
    by (cases "run envs s"; cases "run envs s'") (simp_all add: loweq_fields)
  with r show ?thesis by simp
qed

theorem logging_noninterference_witness:
  "loweq init_state (init_state\<lparr>g_log_enabled := False\<rparr>)
   \<and> map_option (\<lambda>x. protocol (trace x)) (run [click_env] init_state)
       = Some [SerialWrite ACK_SUCCESS, Hid (MouseClick MOUSE_LEFT)]
   \<and> map_option (\<lambda>x. protocol (trace x)) (run [click_env] (init_state\<lparr>g_log_enabled := False\<rparr>))
       = Some [SerialWrite ACK_SUCCESS, Hid (MouseClick MOUSE_LEFT)]
   \<and> map_option trace (run [click_env] (init_state\<lparr>g_log_enabled := False\<rparr>))
       \<noteq> map_option trace (run [click_env] init_state)"
proof -
  have h: "loweq init_state (init_state\<lparr>g_log_enabled := False\<rparr>)"
    by (simp add: loweq_def)
  have on: "map_option (\<lambda>x. protocol (trace x)) (run [click_env] init_state)
       = Some [SerialWrite ACK_SUCCESS, Hid (MouseClick MOUSE_LEFT)]"
    by code_simp
  have differ: "map_option trace (run [click_env] (init_state\<lparr>g_log_enabled := False\<rparr>))
       \<noteq> map_option trace (run [click_env] init_state)"
    by code_simp
  have eq: "map_option (\<lambda>x. protocol (trace x)) (run [click_env] init_state)
       = map_option (\<lambda>x. protocol (trace x)) (run [click_env] (init_state\<lparr>g_log_enabled := False\<rparr>))"
    using logging_noninterference [OF h, of "[click_env]"] by (rule conjunct2)
  have off: "map_option (\<lambda>x. protocol (trace x)) (run [click_env] (init_state\<lparr>g_log_enabled := False\<rparr>))
       = Some [SerialWrite ACK_SUCCESS, Hid (MouseClick MOUSE_LEFT)]"
    unfolding eq [symmetric] by (rule on)
  show ?thesis
    using h on off differ by blast
qed

section \<open>The parser stays within its buffer\<close>

lemma quiet_simps [simp]:
  "quiet [] = True"
  "quiet (xs @ ys) = (quiet xs \<and> quiet ys)"
  "quiet (e # es) = (\<not> empty_packet_line e \<and> quiet es)"
  by (simp_all add: quiet_def)

lemma parser_view_emit [simp]:
  "parser_view (emit [Hid c] s) = parser_view s"
  "parser_view (emit [SerialWrite a] s) = parser_view s"
  by (simp_all add: parser_view_def parser_fields_def)

lemma parser_view_logger [simp]:
  "parser_view (logQueueStatus t s) = parser_view s"
  "parser_view (logPacketReceived len t s) = parser_view s"
  "parser_view (logPacketData data len s) = parser_view s"
  "parser_view (logCommand cmd_name details t s) = parser_view s"
  "parser_view (logInterrupt t s) = parser_view s"
  "parser_view (logLogStateChange enabled s) = parser_view s"
  "parser_view (logMouseMove x y wheel t s) = parser_view s"
  "parser_view (logMouseButton action button t s) = parser_view s"
  "parser_view (logKeyboard action key t s) = parser_view s"
  "parser_view (logKeyboardPrint txt len s) = parser_view s"
  "parser_view (logACK ack_code t s) = parser_view s"
  "parser_view (logStats t s) = parser_view s"
  by (simp_all add: parser_view_def parser_fields_def logger_defs Let_def)

lemma parser_view_logError:
  "error_type \<noteq> ''EMPTY_PACKET'' \<Longrightarrow> parser_view (logError error_type details t s) = parser_view s"
  by (simp add: parser_view_def parser_fields_def logError_def Let_def)

lemma parser_view_errors [simp]:
  "parser_view (logError ''INVALID_LENGTH'' details t s) = parser_view s"
  "parser_view (logError ''QUEUE_FULL'' details t s) = parser_view s"
  "parser_view (logCRCError expected received t s) = parser_view s"
  "parser_view (logInvalidCommand c t s) = parser_view s"
  "parser_view (logParamError c expected received t s) = parser_view s"
  by (simp_all add: parser_view_logError logCRCError_def logInvalidCommand_def logParamError_def)

lemma parser_view_sendAck [simp]: "parser_view (sendAck a t s) = parser_view s"
  by (simp add: sendAck_def)

lemma parser_view_updates [simp]:
  "parser_view (s\<lparr>g_interrupt_flag := f\<rparr>) = parser_view s"
  "parser_view (s\<lparr>g_log_enabled := e\<rparr>) = parser_view s"
  "parser_view (s\<lparr>last_button_press := p\<rparr>) = parser_view s"
  "parser_view (s\<lparr>cmdQueue := q\<rparr>) = parser_view s"
  "parser_view (s\<lparr>timedAction := ta\<rparr>) = parser_view s"
  "parser_view (s\<lparr>last_stats_time := l\<rparr>) = parser_view s"
  by (simp_all add: parser_view_def parser_fields_def)

lemma parser_view_buttonISR [simp]: "parser_view (buttonISR te s) = parser_view s"
  by (simp add: buttonISR_def)

lemma parser_view_preempt [simp]: "parser_view (preempt irqs s) = parser_view s"
  by (simp add: preempt_def split: list.splits option.splits)

lemma parser_view_kb_print_loop [simp]: "parser_view (kb_print_loop irqs bs s) = parser_view s"
  by (induction bs arbitrary: irqs s) (simp_all add: Let_def)

lemma parser_view_executeCommand [simp]:
  "parser_view (executeCommand t irqs p s) = parser_view s"
proof (cases "g_interrupt_flag s")
  case True
  then show ?thesis by (simp add: executeCommand_skipped)
next
  case f: False
  consider (c0) "cmd p = CMD_MOUSE_MOVE" | (c1) "cmd p = CMD_MOUSE_PRESS"
    | (c2) "cmd p = CMD_MOUSE_RELEASE" | (c3) "cmd p = CMD_MOUSE_CLICK"
    | (c4) "cmd p = CMD_MOUSE_PRESS_TIMED" | (c5) "cmd p = CMD_KB_PRESS"
    | (c6) "cmd p = CMD_KB_RELEASE" | (c7) "cmd p = CMD_KB_WRITE"
    | (c8) "cmd p = CMD_KB_RELEASE_ALL" | (c9) "cmd p = CMD_KB_PRINT"
    | (c10) "cmd p = CMD_KB_PRESS_TIMED" | (c11) "cmd p = CMD_PAUSE_LOG"
    | (c12) "cmd p = CMD_RESUME_LOG" | (c13) "cmd p = CMD_CLEAR_QUEUE"
    | (other) "cmd p \<notin> {CMD_MOUSE_MOVE, CMD_MOUSE_PRESS, CMD_MOUSE_RELEASE, CMD_MOUSE_CLICK,
         CMD_MOUSE_PRESS_TIMED, CMD_KB_PRESS, CMD_KB_RELEASE, CMD_KB_WRITE, CMD_KB_RELEASE_ALL,
         CMD_KB_PRINT, CMD_KB_PRESS_TIMED, CMD_PAUSE_LOG, CMD_RESUME_LOG, CMD_CLEAR_QUEUE}"
    by blast
  then show ?thesis
  proof cases
    case c0 then show ?thesis using f
      by (simp add: executeCommand_def Let_def cmd_defs)
  next
    case c1 then show ?thesis using f
      by (simp add: executeCommand_def Let_def cmd_defs)
  next
    case c2 then show ?thesis using f
      by (simp add: executeCommand_def Let_def cmd_defs)
  next
    case c3 then show ?thesis using f
      by (simp add: executeCommand_def Let_def cmd_defs)
  next
    case c4 then show ?thesis using f
      by (simp add: executeCommand_def Let_def cmd_defs start_timed_def)
  next
    case c5 then show ?thesis using f
      by (simp add: executeCommand_def Let_def cmd_defs)
  next
    case c6 then show ?thesis using f
      by (simp add: executeCommand_def Let_def cmd_defs)
  next
    case c7 then show ?thesis using f
      by (simp add: executeCommand_def Let_def cmd_defs)
  next
    case c8 then show ?thesis using f
      by (simp add: executeCommand_def Let_def cmd_defs)
  next
    case c9 then show ?thesis using f
      by (simp add: executeCommand_print)
  next
    case c10 then show ?thesis using f
      by (simp add: executeCommand_def Let_def cmd_defs start_timed_def)
  next
    case c11 then show ?thesis using f
      by (simp add: executeCommand_def Let_def cmd_defs)
  next
    case c12 then show ?thesis using f
      by (simp add: executeCommand_def Let_def cmd_defs)
  next
    case c13 then show ?thesis using f
      by (simp add: executeCommand_def Let_def cmd_defs)
  next
    case other then show ?thesis using f
      by (simp add: executeCommand_def Let_def)
  qed
qed

lemma parser_view_processPacket:
  "1 \<le> len \<Longrightarrow> parser_view (processPacket t data len s) = parser_view s"
  by (simp add: processPacket_def Let_def word_le_nat_alt word_less_nat_alt
        split: prod.splits bool.splits)

lemma parser_view_loop_interrupt [simp]: "parser_view (loop_interrupt t s) = parser_view s"
  by (simp add: loop_interrupt_def Let_def release_timed_def deactivate_def)

lemma parser_view_loop_timed [simp]: "parser_view (loop_timed t s) = parser_view s"
  by (simp add: loop_timed_def Let_def release_timed_def deactivate_def)

lemma parser_view_loop_execute [simp]: "parser_view (loop_execute t irqs s) = parser_view s"
  by (simp add: loop_execute_def split: option.splits)

lemma parser_view_loop_stats [simp]: "parser_view (loop_stats t s) = parser_view s"
  by (simp add: loop_stats_def)
lemma view_fields:
  assumes "parser_view a = parser_view b"
  shows "rx_buffer a = rx_buffer b" and "rx_state a = rx_state b" and "rx_len a = rx_len b"
    and "rx_idx a = rx_idx b" and "quiet (trace a) = quiet (trace b)"
  using assms by (simp_all add: parser_view_def parser_fields_def)

lemma view_ok:
  assumes "parser_view a = parser_view b"
  shows "parser_ok a = parser_ok b"
  using view_fields [OF assms] by (simp add: parser_ok_def)

lemma rx_byte_ok:
  assumes ok: "parser_ok s" and q: "quiet (trace s)"
  shows "\<exists>s'. rx_byte t b s = Some s' \<and> parser_ok s' \<and> quiet (trace s')"
proof -
  have len32: "length (rx_buffer s) = 32"
    using ok by (simp add: parser_ok_def MAX_PACKET_SIZE_def)
  consider (sync) "rx_state s = 0" | (len) "rx_state s = 1" | (payload) "rx_state s = 2"
    | (none) "rx_state s \<noteq> 0" "rx_state s \<noteq> 1" "rx_state s \<noteq> 2"
    by blast
  then show ?thesis
  proof cases
    case sync
    then show ?thesis
      using ok q by (simp add: rx_byte_def parser_ok_def)
  next
    case len
    let ?s1 = "s\<lparr>rx_len := b\<rparr>"
    show ?thesis
    proof (cases "b = 0 \<or> unat b > 31")
      case True
      let ?r = "sendAck ACK_PARAM_ERROR t (logError ''INVALID_LENGTH'' None t ?s1)"
      have v: "parser_view ?r = parser_view ?s1"
        by simp
      have "rx_byte t b s = Some (?r\<lparr>rx_state := 0\<rparr>)"
        using len True by (auto simp add: rx_byte_def Let_def MAX_PACKET_SIZE_def)
      moreover have "parser_ok (?r\<lparr>rx_state := 0\<rparr>)"
        using view_fields(1) [OF v] len32 by (simp add: parser_ok_def MAX_PACKET_SIZE_def)
      moreover have "quiet (trace (?r\<lparr>rx_state := 0\<rparr>))"
        using view_fields(5) [OF v] q by simp
      ultimately show ?thesis by blast
    next
      case False
      let ?r = "logPacketReceived b t ?s1"
      have v: "parser_view ?r = parser_view ?s1"
        by simp
      have b1: "1 \<le> unat b" "unat b \<le> 31"
        using False by (simp_all add: unat_eq_0 Suc_le_eq unat_gt_0)
      have "rx_byte t b s = Some (?r\<lparr>rx_state := 2, rx_idx := 0\<rparr>)"
        using len False by (auto simp add: rx_byte_def Let_def MAX_PACKET_SIZE_def)
      moreover have "parser_ok (?r\<lparr>rx_state := 2, rx_idx := 0\<rparr>)"
        using view_fields(1,3) [OF v] len32 b1 by (simp add: parser_ok_def MAX_PACKET_SIZE_def)
      moreover have "quiet (trace (?r\<lparr>rx_state := 2, rx_idx := 0\<rparr>))"
        using view_fields(5) [OF v] q by simp
      ultimately show ?thesis by blast
    qed
  next
    case payload
    have bounds: "1 \<le> unat (rx_len s)" "unat (rx_len s) \<le> 31" "unat (rx_idx s) \<le> unat (rx_len s)"
      using ok payload by (simp_all add: parser_ok_def MAX_PACKET_SIZE_def)
    have inside: "unat (rx_idx s) < length (rx_buffer s)"
      using bounds len32 by simp
    have idx: "unat (rx_idx s + 1) = unat (rx_idx s) + 1"
      using bounds by (simp add: unat_word_ariths)
    let ?s1 = "s\<lparr>rx_buffer := (rx_buffer s)[unat (rx_idx s) := b], rx_idx := rx_idx s + 1\<rparr>"
    show ?thesis
    proof (cases "unat (rx_idx s) = unat (rx_len s)")
      case more: False
      have "rx_byte t b s = Some ?s1"
        using payload inside idx more by (simp add: rx_byte_def Let_def)
      moreover have "parser_ok ?s1"
        using payload bounds more len32 idx by (simp add: parser_ok_def MAX_PACKET_SIZE_def)
      moreover have "quiet (trace ?s1)"
        using q by simp
      ultimately show ?thesis by blast
    next
      case last: True
      let ?good = "processPacket t (rx_buffer ?s1) (rx_len ?s1) ?s1"
      let ?bad = "sendAck ACK_CRC_ERROR t
                    (logCRCError (crc8 (rx_buffer ?s1) (rx_len ?s1))
                       (rx_buffer ?s1 ! unat (rx_len ?s1)) t ?s1)"
      let ?r = "if rx_buffer ?s1 ! unat (rx_len ?s1) = crc8 (rx_buffer ?s1) (rx_len ?s1)
                then ?good else ?bad"
      have one: "1 \<le> rx_len ?s1"
        using bounds by (simp add: word_le_nat_alt)
      have v: "parser_view ?r = parser_view ?s1"
        using parser_view_processPacket [OF one, of t "rx_buffer ?s1" ?s1] by simp
      have "rx_byte t b s = Some (?r\<lparr>rx_state := 0, rx_idx := 0\<rparr>)"
        using payload inside idx last by (simp add: rx_byte_def Let_def)
      moreover have "parser_ok (?r\<lparr>rx_state := 0, rx_idx := 0\<rparr>)"
        using view_fields(1) [OF v] len32 by (simp add: parser_ok_def MAX_PACKET_SIZE_def)
      moreover have "quiet (trace (?r\<lparr>rx_state := 0, rx_idx := 0\<rparr>))"
        using view_fields(5) [OF v] q by simp
      ultimately show ?thesis by blast
    qed
  next
    case none
    then show ?thesis
      using ok q by (simp add: rx_byte_def)
  qed
qed

lemma do_step_ok:
  assumes "parser_ok s" and "quiet (trace s)"
  shows "\<exists>s'. do_step x s = Some s' \<and> parser_ok s' \<and> quiet (trace s')"
proof (cases x)
  case (Rx t b)
  then show ?thesis
    using rx_byte_ok [OF assms] by simp
next
  case (Edge te)
  have v: "parser_view (buttonISR te s) = parser_view s" by simp
  show ?thesis
    using Edge assms view_ok [OF v] view_fields(5) [OF v] by simp
next
  case (Service t)
  have v: "parser_view (loop_interrupt t s) = parser_view s" by simp
  show ?thesis
    using Service assms view_ok [OF v] view_fields(5) [OF v] by simp
next
  case (Poll t)
  have v: "parser_view (loop_timed t s) = parser_view s" by simp
  show ?thesis
    using Poll assms view_ok [OF v] view_fields(5) [OF v] by simp
next
  case (Exec t irqs)
  have v: "parser_view (loop_execute t irqs s) = parser_view s" by simp
  show ?thesis
    using Exec assms view_ok [OF v] view_fields(5) [OF v] by simp
next
  case (Stats t)
  have v: "parser_view (loop_stats t s) = parser_view s" by simp
  show ?thesis
    using Stats assms view_ok [OF v] view_fields(5) [OF v] by simp
qed

lemma do_steps_ok:
  "parser_ok s \<Longrightarrow> quiet (trace s) \<Longrightarrow>
   \<exists>s'. do_steps xs s = Some s' \<and> parser_ok s' \<and> quiet (trace s')"
proof (induction xs arbitrary: s)
  case Nil
  then show ?case by simp
next
  case (Cons x xs)
  from do_step_ok [OF Cons.prems, of x]
  obtain s1 where "do_step x s = Some s1" "parser_ok s1" "quiet (trace s1)"
    by blast
  then show ?case
    using Cons.IH [of s1] by simp
qed

lemma do_steps_append:
  "do_steps (xs @ ys) s = (case do_steps xs s of None \<Rightarrow> None | Some s1 \<Rightarrow> do_steps ys s1)"
  by (induction xs arbitrary: s) (simp_all split: option.splits)

lemma receive_steps: "loop_receive t evs s = do_steps (map (rx_step t) evs) s"
proof (induction evs arbitrary: s)
  case Nil
  show ?case by simp
next
  case (Cons ev evs)
  then show ?case by (cases ev) (simp_all split: option.splits)
qed

text \<open>An iteration of \<open>loop\<close> is the list of its steps, and a run is the list of the steps
  of its iterations.\<close>

lemma loop_steps: "loop env s = do_steps (steps_of env) s"
  by (cases "irq_top env")
     (simp_all add: loop_def steps_of_def Let_def preempt_def receive_steps do_steps_append
        split: option.splits)

lemma run_steps: "run envs s = do_steps (concat (map steps_of envs)) s"
  by (induction envs arbitrary: s) (simp_all add: loop_steps do_steps_append split: option.splits)

lemma init_ok: "parser_ok init_state" "quiet (trace init_state)"
  by (simp_all add: parser_ok_def init_state_def)
lemma rx_byte_dispatch:
  assumes "parser_ok s" and "rx_state s = 2" and "unat (rx_idx s) = unat (rx_len s)"
      and "crc8 ((rx_buffer s)[unat (rx_idx s) := b]) (rx_len s) = b"
  shows "rx_byte t b s =
           Some ((processPacket t ((rx_buffer s)[unat (rx_idx s) := b]) (rx_len s)
                    (s\<lparr>rx_buffer := (rx_buffer s)[unat (rx_idx s) := b], rx_idx := rx_idx s + 1\<rparr>))
                 \<lparr>rx_state := 0, rx_idx := 0\<rparr>)"
proof -
  have bounds: "unat (rx_len s) \<le> 31" "length (rx_buffer s) = 32"
    using assms(1,2) by (simp_all add: parser_ok_def MAX_PACKET_SIZE_def)
  have idx: "unat (rx_idx s + 1) = unat (rx_idx s) + 1"
    using bounds assms(3) by (simp add: unat_word_ariths)
  show ?thesis
    using assms(2,3,4) bounds idx by (simp add: rx_byte_def Let_def)
qed

text \<open>
  C10. In every state the firmware reaches from reset, by any sequence of steps of the loop
  and of the interrupt routine, the receive buffer has its 32 bytes and, while a payload is
  read, \<open>1 \<le> rx_len \<le> 31\<close> and \<open>rx_idx \<le> rx_len\<close>: the next byte is written inside the
  buffer (no parser step writes outside it), payload and CRC byte fit, and the call of
  \<open>processPacket\<close> that the parser makes when the frame is complete has \<open>len = rx_len\<close>,
  which is not below 1. The \<open>EMPTY_PACKET\<close> line of the \<open>len < 1\<close> branch is never
  printed. The same holds at the end of every run of whole iterations.
\<close>

theorem parser_bounds:
  "(\<exists>s. do_steps xs init_state = Some s
       \<and> length (rx_buffer s) = 32
       \<and> (rx_state s = 2 \<longrightarrow>
             1 \<le> unat (rx_len s) \<and> unat (rx_len s) \<le> 31
           \<and> unat (rx_idx s) \<le> unat (rx_len s)
           \<and> unat (rx_len s) + 1 \<le> length (rx_buffer s))
       \<and> (\<forall>t b. rx_byte t b s \<noteq> None)
       \<and> (\<forall>t b. rx_state s = 2 \<and> unat (rx_idx s) = unat (rx_len s)
                  \<and> crc8 ((rx_buffer s)[unat (rx_idx s) := b]) (rx_len s) = b
              \<longrightarrow> rx_byte t b s =
                    Some ((processPacket t ((rx_buffer s)[unat (rx_idx s) := b]) (rx_len s)
                             (s\<lparr>rx_buffer := (rx_buffer s)[unat (rx_idx s) := b],
                                rx_idx := rx_idx s + 1\<rparr>))
                          \<lparr>rx_state := 0, rx_idx := 0\<rparr>)
                  \<and> \<not> rx_len s < 1)
       \<and> quiet (trace s))
   \<and> (\<exists>s. run envs init_state = Some s \<and> parser_ok s \<and> quiet (trace s))"
proof -
  from do_steps_ok [OF init_ok, of xs]
  obtain s where s: "do_steps xs init_state = Some s" and ok: "parser_ok s"
    and q: "quiet (trace s)"
    by blast
  have len32: "length (rx_buffer s) = 32"
    using ok by (simp add: parser_ok_def MAX_PACKET_SIZE_def)
  have st2: "rx_state s = 2 \<longrightarrow>
             1 \<le> unat (rx_len s) \<and> unat (rx_len s) \<le> 31
           \<and> unat (rx_idx s) \<le> unat (rx_len s)
           \<and> unat (rx_len s) + 1 \<le> length (rx_buffer s)"
    using ok by (simp add: parser_ok_def MAX_PACKET_SIZE_def)
  have nofault: "\<forall>t b. rx_byte t b s \<noteq> None"
    using rx_byte_ok [OF ok q] by fastforce
  have call: "\<forall>t b. rx_state s = 2 \<and> unat (rx_idx s) = unat (rx_len s)
                  \<and> crc8 ((rx_buffer s)[unat (rx_idx s) := b]) (rx_len s) = b
              \<longrightarrow> rx_byte t b s =
                    Some ((processPacket t ((rx_buffer s)[unat (rx_idx s) := b]) (rx_len s)
                             (s\<lparr>rx_buffer := (rx_buffer s)[unat (rx_idx s) := b],
                                rx_idx := rx_idx s + 1\<rparr>))
                          \<lparr>rx_state := 0, rx_idx := 0\<rparr>)
                  \<and> \<not> rx_len s < 1"
  proof (intro allI impI)
    fix t b
    assume a: "rx_state s = 2 \<and> unat (rx_idx s) = unat (rx_len s)
                  \<and> crc8 ((rx_buffer s)[unat (rx_idx s) := b]) (rx_len s) = b"
    have "1 \<le> unat (rx_len s)"
      using a st2 by simp
    then have nz: "\<not> rx_len s < 1"
      by (simp add: word_less_nat_alt)
    have st: "rx_state s = 2" and last: "unat (rx_idx s) = unat (rx_len s)"
      and crc: "crc8 ((rx_buffer s)[unat (rx_idx s) := b]) (rx_len s) = b"
      using a by blast+
    show "rx_byte t b s =
                    Some ((processPacket t ((rx_buffer s)[unat (rx_idx s) := b]) (rx_len s)
                             (s\<lparr>rx_buffer := (rx_buffer s)[unat (rx_idx s) := b],
                                rx_idx := rx_idx s + 1\<rparr>))
                          \<lparr>rx_state := 0, rx_idx := 0\<rparr>)
                  \<and> \<not> rx_len s < 1"
      using nz rx_byte_dispatch [OF ok st last crc, of t] by blast
  qed
  have first: "\<exists>s. do_steps xs init_state = Some s
       \<and> length (rx_buffer s) = 32
       \<and> (rx_state s = 2 \<longrightarrow>
             1 \<le> unat (rx_len s) \<and> unat (rx_len s) \<le> 31
           \<and> unat (rx_idx s) \<le> unat (rx_len s)
           \<and> unat (rx_len s) + 1 \<le> length (rx_buffer s))
       \<and> (\<forall>t b. rx_byte t b s \<noteq> None)
       \<and> (\<forall>t b. rx_state s = 2 \<and> unat (rx_idx s) = unat (rx_len s)
                  \<and> crc8 ((rx_buffer s)[unat (rx_idx s) := b]) (rx_len s) = b
              \<longrightarrow> rx_byte t b s =
                    Some ((processPacket t ((rx_buffer s)[unat (rx_idx s) := b]) (rx_len s)
                             (s\<lparr>rx_buffer := (rx_buffer s)[unat (rx_idx s) := b],
                                rx_idx := rx_idx s + 1\<rparr>))
                          \<lparr>rx_state := 0, rx_idx := 0\<rparr>)
                  \<and> \<not> rx_len s < 1)
       \<and> quiet (trace s)"
    using s len32 st2 nofault call q by blast
  have second: "\<exists>s. run envs init_state = Some s \<and> parser_ok s \<and> quiet (trace s)"
    unfolding run_steps by (rule do_steps_ok [OF init_ok])
  show ?thesis
    using first second by (rule conjI)
qed

theorem parser_bounds_witness:
  "do_steps (map (Rx 100) (butlast click_frame)) init_state = Some awaiting_crc
   \<and> rx_state awaiting_crc = 2
   \<and> 1 \<le> unat (rx_len awaiting_crc) \<and> unat (rx_len awaiting_crc) \<le> 31
   \<and> unat (rx_idx awaiting_crc) = unat (rx_len awaiting_crc)
   \<and> crc8 ((rx_buffer awaiting_crc)[unat (rx_idx awaiting_crc) := 0x65]) (rx_len awaiting_crc) = 0x65
   \<and> rx_byte 100 0x65 awaiting_crc =
        Some ((processPacket 100 ((rx_buffer awaiting_crc)[unat (rx_idx awaiting_crc) := 0x65])
                 (rx_len awaiting_crc)
                 (awaiting_crc\<lparr>rx_buffer := (rx_buffer awaiting_crc)[unat (rx_idx awaiting_crc) := 0x65],
                    rx_idx := rx_idx awaiting_crc + 1\<rparr>))
              \<lparr>rx_state := 0, rx_idx := 0\<rparr>)
   \<and> \<not> rx_len awaiting_crc < 1
   \<and> quiet (trace awaiting_crc)"
proof -
  have reach: "do_steps (map (Rx 100) (butlast click_frame)) init_state = Some awaiting_crc"
    by code_simp
  have here: "rx_state awaiting_crc = 2"
    "unat (rx_idx awaiting_crc) = unat (rx_len awaiting_crc)"
    "crc8 ((rx_buffer awaiting_crc)[unat (rx_idx awaiting_crc) := 0x65]) (rx_len awaiting_crc) = 0x65"
    by code_simp+
  from parser_bounds [of "map (Rx 100) (butlast click_frame)" "[]"]
  obtain s where s: "do_steps (map (Rx 100) (butlast click_frame)) init_state = Some s"
    and st2: "rx_state s = 2 \<longrightarrow>
             1 \<le> unat (rx_len s) \<and> unat (rx_len s) \<le> 31
           \<and> unat (rx_idx s) \<le> unat (rx_len s)
           \<and> unat (rx_len s) + 1 \<le> length (rx_buffer s)"
    and call: "\<forall>t b. rx_state s = 2 \<and> unat (rx_idx s) = unat (rx_len s)
                  \<and> crc8 ((rx_buffer s)[unat (rx_idx s) := b]) (rx_len s) = b
              \<longrightarrow> rx_byte t b s =
                    Some ((processPacket t ((rx_buffer s)[unat (rx_idx s) := b]) (rx_len s)
                             (s\<lparr>rx_buffer := (rx_buffer s)[unat (rx_idx s) := b],
                                rx_idx := rx_idx s + 1\<rparr>))
                          \<lparr>rx_state := 0, rx_idx := 0\<rparr>)
                  \<and> \<not> rx_len s < 1"
    and q: "quiet (trace s)"
    by blast
  have eq: "s = awaiting_crc"
    using s reach by simp
  show ?thesis
    using reach here st2 call q unfolding eq by blast
qed

end
